theory Spec2Isabelle
  imports Main
begin

section \<open>JavaScript values\<close>

text \<open>
  The SDK passes plain JavaScript data around: configuration objects, telemetry records
  and the payloads that are flattened into multipart form fields. A value is a scalar,
  an object (its own enumerable properties in enumeration order) or an array. Numbers
  are modelled as integers; strings as lists of characters with codes below 256.
\<close>

datatype jsval =
    JUndefined
  | JNull
  | JBool bool
  | JNum int
  | JStr string
  | JObj "(string \<times> jsval) list"
  | JArr "jsval list"

text \<open>JavaScript truthiness, as used by \<open>!x\<close>, \<open>x || y\<close> and \<open>x && y\<close>.\<close>

fun truthy :: "jsval \<Rightarrow> bool" where
  "truthy JUndefined = False"
| "truthy JNull = False"
| "truthy (JBool b) = b"
| "truthy (JNum n) = (n \<noteq> 0)"
| "truthy (JStr s) = (s \<noteq> [])"
| "truthy (JObj _) = True"
| "truthy (JArr _) = True"

text \<open>\<open>a || b\<close> on optional strings and numbers (\<open>None\<close> is \<open>undefined\<close> or \<open>NaN\<close>).\<close>

definition truthy_str :: "string option \<Rightarrow> bool" where
  "truthy_str a = (case a of None \<Rightarrow> False | Some s \<Rightarrow> s \<noteq> [])"

definition or_str :: "string option \<Rightarrow> string option \<Rightarrow> string option" where
  "or_str a b = (if truthy_str a then a else b)"

definition truthy_num :: "int option \<Rightarrow> bool" where
  "truthy_num a = (case a of None \<Rightarrow> False | Some n \<Rightarrow> n \<noteq> 0)"

definition or_num :: "int option \<Rightarrow> int option \<Rightarrow> int option" where
  "or_num a b = (if truthy_num a then a else b)"

subsection \<open>The built-in \<open>parseInt\<close> with no radix\<close>

text \<open>
  Leading white space is skipped (of the white space of the language, the characters
  below 256: tab, line feed, vertical tab, form feed, carriage return, space and
  no-break space), then an optional sign and
  an optional \<open>0x\<close> prefix are read, then the longest run of digits of the radix; no
  digit at all gives \<open>NaN\<close>, which is \<open>None\<close>.
\<close>

definition isWhiteSpace :: "char \<Rightarrow> bool" where
  "isWhiteSpace c =
     (c \<in> set [CHR '' '', CHR 0x09, CHR 0x0A, CHR 0x0B, CHR 0x0C, CHR 0x0D, CHR 0xA0])"

definition digitValue :: "char \<Rightarrow> nat option" where
  "digitValue c =
     (let n = (of_char c :: nat) in
      if 48 \<le> n \<and> n \<le> 57 then Some (n - 48)
      else if 97 \<le> n \<and> n \<le> 102 then Some (n - 87)
      else if 65 \<le> n \<and> n \<le> 70 then Some (n - 55)
      else None)"

definition isRadixDigit :: "nat \<Rightarrow> char \<Rightarrow> bool" where
  "isRadixDigit radix c = (case digitValue c of None \<Rightarrow> False | Some d \<Rightarrow> d < radix)"

definition digitsValue :: "nat \<Rightarrow> string \<Rightarrow> nat" where
  "digitsValue radix ds = foldl (\<lambda>acc c. acc * radix + the (digitValue c)) 0 ds"

definition parseDigits :: "nat \<Rightarrow> string \<Rightarrow> nat option" where
  "parseDigits radix s =
     (let ds = takeWhile (isRadixDigit radix) s in
      if ds = [] then None else Some (digitsValue radix ds))"

definition stripHexPrefix :: "string \<Rightarrow> (nat \<times> string)" where
  "stripHexPrefix s =
     (case s of
        c0 # c1 # rest \<Rightarrow>
          (if c0 = CHR ''0'' \<and> (c1 = CHR ''x'' \<or> c1 = CHR ''X'') then (16, rest) else (10, s))
      | _ \<Rightarrow> (10, s))"

definition parseIntStr :: "string \<Rightarrow> int option" where
  "parseIntStr s =
     (let t = dropWhile isWhiteSpace s;
          (neg, u) = (case t of
                        c # rest \<Rightarrow>
                          (if c = CHR ''-'' then (True, rest)
                           else if c = CHR ''+'' then (False, rest)
                           else (False, t))
                      | [] \<Rightarrow> (False, t));
          (radix, v) = stripHexPrefix u
      in case parseDigits radix v of
           None \<Rightarrow> None
         | Some n \<Rightarrow> Some (if neg then - int n else int n))"

text \<open>\<open>parseInt(process.env.X)\<close>: an unset variable is \<open>undefined\<close>, which parses to \<open>NaN\<close>.\<close>

definition parseInt :: "string option \<Rightarrow> int option" where
  "parseInt v = (case v of None \<Rightarrow> None | Some s \<Rightarrow> parseIntStr s)"

section \<open>Configuration (config.js)\<close>

record config =
  keyId :: "string option"
  keySecret :: "string option"
  baseUrl :: "string option"
  enableDefaultMetrics :: bool
  enableLogging :: bool
  timeout :: int
  retryAttempts :: int
  retryDelay :: int
  version :: string
  userAgent :: string
  customTags :: jsval
  serviceName :: "string option"
  serviceVersion :: "string option"
  environment :: "string option"

text \<open>The constructor: the fields \<open>load\<close> assigns later are still \<open>undefined\<close>.\<close>

definition Config_new :: config where
  "Config_new = \<lparr>
     keyId = None,
     keySecret = None,
     baseUrl = Some ''http://localhost:5000/api'',
     enableDefaultMetrics = True,
     enableLogging = True,
     timeout = 30000,
     retryAttempts = 3,
     retryDelay = 1000,
     version = ''1.0.0'',
     userAgent = ''Kryos-NodeJS-SDK/1.0.0'',
     customTags = JUndefined,
     serviceName = None,
     serviceVersion = None,
     environment = None \<rparr>"

text \<open>The \<open>options\<close> argument of \<open>load\<close>; an absent property is \<open>None\<close>.\<close>

record options =
  opt_keyId :: "string option"
  opt_keySecret :: "string option"
  opt_baseUrl :: "string option"
  opt_enableDefaultMetrics :: "bool option"
  opt_enableLogging :: "bool option"
  opt_timeout :: "int option"
  opt_retryAttempts :: "int option"
  opt_retryDelay :: "int option"
  opt_customTags :: "jsval option"
  opt_serviceName :: "string option"
  opt_serviceVersion :: "string option"

definition no_options :: options where
  "no_options = \<lparr>
     opt_keyId = None, opt_keySecret = None, opt_baseUrl = None,
     opt_enableDefaultMetrics = None, opt_enableLogging = None,
     opt_timeout = None, opt_retryAttempts = None, opt_retryDelay = None,
     opt_customTags = None, opt_serviceName = None, opt_serviceVersion = None \<rparr>"

text \<open>The part of \<open>process.env\<close> that \<open>load\<close> reads; an unset variable is \<open>None\<close>.\<close>

record env =
  KRYOS_KEY_ID :: "string option"
  KRYOS_KEY_SECRET :: "string option"
  KRYOS_BASE_URL :: "string option"
  KRYOS_ENABLE_METRICS :: "string option"
  KRYOS_ENABLE_LOGGING :: "string option"
  KRYOS_TIMEOUT :: "string option"
  KRYOS_RETRY_ATTEMPTS :: "string option"
  KRYOS_RETRY_DELAY :: "string option"
  KRYOS_SERVICE_NAME :: "string option"
  KRYOS_SERVICE_VERSION :: "string option"
  NODE_ENV :: "string option"
  KRYOS_ENVIRONMENT :: "string option"

definition empty_env :: env where
  "empty_env = \<lparr>
     KRYOS_KEY_ID = None, KRYOS_KEY_SECRET = None, KRYOS_BASE_URL = None,
     KRYOS_ENABLE_METRICS = None, KRYOS_ENABLE_LOGGING = None,
     KRYOS_TIMEOUT = None, KRYOS_RETRY_ATTEMPTS = None, KRYOS_RETRY_DELAY = None,
     KRYOS_SERVICE_NAME = None, KRYOS_SERVICE_VERSION = None,
     NODE_ENV = None, KRYOS_ENVIRONMENT = None \<rparr>"

text \<open>
  \<open>parseInt(process.env.X) || options.x || this.x\<close>: the first truthy number wins, and
  the current value of the field is the last resort.
\<close>

definition load_num :: "string option \<Rightarrow> int option \<Rightarrow> int \<Rightarrow> int" where
  "load_num e opt cur =
     (case or_num (or_num (parseInt e) opt) (Some cur) of Some n \<Rightarrow> n | None \<Rightarrow> cur)"

definition load :: "env \<Rightarrow> options \<Rightarrow> config \<Rightarrow> config" where
  "load e opts c = c\<lparr>
     keyId := or_str (KRYOS_KEY_ID e) (opt_keyId opts),
     keySecret := or_str (KRYOS_KEY_SECRET e) (opt_keySecret opts),
     baseUrl := or_str (or_str (KRYOS_BASE_URL e) (opt_baseUrl opts)) (baseUrl c),
     enableDefaultMetrics :=
       (KRYOS_ENABLE_METRICS e \<noteq> Some ''false'' \<and> opt_enableDefaultMetrics opts \<noteq> Some False),
     enableLogging :=
       (KRYOS_ENABLE_LOGGING e \<noteq> Some ''false'' \<and> opt_enableLogging opts \<noteq> Some False),
     timeout := load_num (KRYOS_TIMEOUT e) (opt_timeout opts) (timeout c),
     retryAttempts := load_num (KRYOS_RETRY_ATTEMPTS e) (opt_retryAttempts opts) (retryAttempts c),
     retryDelay := load_num (KRYOS_RETRY_DELAY e) (opt_retryDelay opts) (retryDelay c),
     customTags :=
       (case opt_customTags opts of
          Some t \<Rightarrow> (if truthy t then t else JObj [])
        | None \<Rightarrow> JObj []),
     serviceName :=
       or_str (or_str (KRYOS_SERVICE_NAME e) (opt_serviceName opts)) (Some ''unknown-service''),
     serviceVersion :=
       or_str (or_str (KRYOS_SERVICE_VERSION e) (opt_serviceVersion opts)) (Some ''1.0.0''),
     environment := or_str (or_str (NODE_ENV e) (KRYOS_ENVIRONMENT e)) (Some ''development'') \<rparr>"

text \<open>Loading repeatedly into the one configuration object that the modules share.\<close>

fun loads :: "(env \<times> options) list \<Rightarrow> config \<Rightarrow> config" where
  "loads [] c = c"
| "loads ((e, opts) # rest) c = loads rest (load e opts c)"

text \<open>\<open>s.slice(-4)\<close>: the last four characters, or all of \<open>s\<close> when it is shorter.\<close>

definition slice_last4 :: "string \<Rightarrow> string" where
  "slice_last4 s = drop (length s - 4) s"

definition js_str :: "string option \<Rightarrow> jsval" where
  "js_str a = (case a of None \<Rightarrow> JUndefined | Some s \<Rightarrow> JStr s)"

definition toJSON :: "config \<Rightarrow> jsval" where
  "toJSON c = JObj [
     (''keyId'', if truthy_str (keyId c) then JStr (''***'' @ slice_last4 (the (keyId c))) else JNull),
     (''baseUrl'', js_str (baseUrl c)),
     (''enableDefaultMetrics'', JBool (enableDefaultMetrics c)),
     (''enableLogging'', JBool (enableLogging c)),
     (''timeout'', JNum (timeout c)),
     (''retryAttempts'', JNum (retryAttempts c)),
     (''retryDelay'', JNum (retryDelay c)),
     (''serviceName'', js_str (serviceName c)),
     (''serviceVersion'', js_str (serviceVersion c)),
     (''environment'', js_str (environment c)),
     (''customTags'', customTags c)]"

text \<open>The property names of an object value.\<close>

fun keys_of :: "jsval \<Rightarrow> string list" where
  "keys_of (JObj kvs) = map fst kvs"
| "keys_of _ = []"

fun lookup_prop :: "jsval \<Rightarrow> string \<Rightarrow> jsval" where
  "lookup_prop (JObj kvs) k = (case map_of kvs k of Some v \<Rightarrow> v | None \<Rightarrow> JUndefined)"
| "lookup_prop _ k = JUndefined"

section \<open>Error severity (middleware.js)\<close>

text \<open>
  The fields of a framework error that \<open>getErrorSeverity\<close> reads: an optional numeric
  \<open>statusCode\<close> and the error's \<open>name\<close>.
\<close>

record js_error =
  statusCode :: "int option"
  err_name :: "string option"

definition getErrorSeverity :: "js_error \<Rightarrow> string" where
  "getErrorSeverity error =
     (if truthy_num (statusCode error) \<and> the (statusCode error) \<ge> 500 then ''critical''
      else if truthy_num (statusCode error) \<and> the (statusCode error) \<ge> 400 then ''warning''
      else if err_name error = Some ''ValidationError'' then ''warning''
      else if err_name error = Some ''UnauthorizedError'' then ''warning''
      else ''error'')"

section \<open>Multipart flattening (API module)\<close>

type_synonym fields = "(string \<times> jsval) list"

text \<open>A thrown \<open>Error\<close>, with its message.\<close>

datatype error = JsError string

definition digit_char :: "nat \<Rightarrow> char" where
  "digit_char d = char_of (48 + d)"

text \<open>The decimal numeral of an array index, as a template literal prints it.\<close>

function show_nat :: "nat \<Rightarrow> string" where
  "show_nat n = (if n < 10 then [digit_char n] else show_nat (n div 10) @ [digit_char (n mod 10)])"
  by pat_completeness auto
termination
  by (relation "measure id") auto

declare show_nat.simps [simp del]

definition formKey :: "string \<Rightarrow> string \<Rightarrow> string" where
  "formKey prefix key = (if prefix \<noteq> [] then prefix @ ''.'' @ key else key)"

definition bracketKey :: "string \<Rightarrow> nat \<Rightarrow> string" where
  "bracketKey key index = key @ ''['' @ show_nat index @ '']''"

text \<open>\<open>typeof v === 'object'\<close>: objects, arrays and \<open>null\<close>.\<close>

fun typeof_object :: "jsval \<Rightarrow> bool" where
  "typeof_object JNull = True"
| "typeof_object (JObj _) = True"
| "typeof_object (JArr _) = True"
| "typeof_object _ = False"

text \<open>
  The own enumerable properties that \<open>for (const key in obj)\<close> visits, with their
  values \<open>obj[key]\<close>: the properties of an object, the indices of an array, the
  character indices of a primitive string; nothing for other primitives, \<open>null\<close> and
  \<open>undefined\<close>.
\<close>

definition indexed :: "'a list \<Rightarrow> (nat \<times> 'a) list" where
  "indexed xs = zip [0..<length xs] xs"

fun own_props :: "jsval \<Rightarrow> (string \<times> jsval) list" where
  "own_props (JObj kvs) = kvs"
| "own_props (JArr xs) = map (\<lambda>(i, x). (show_nat i, x)) (indexed xs)"
| "own_props (JStr s) = map (\<lambda>(i, c). (show_nat i, JStr [c])) (indexed s)"
| "own_props _ = []"

lemma own_props_size:
  "(k, v) \<in> set (own_props obj) \<Longrightarrow> size v < size obj \<or> (\<exists>c. v = JStr c)"
proof (cases obj)
  case (JObj kvs)
  assume "(k, v) \<in> set (own_props obj)"
  then have "(k, v) \<in> set kvs" using JObj by simp
  then have "size_prod (\<lambda>_. 0) size (k, v) \<le> size_list (size_prod (\<lambda>_. 0) size) kvs"
    by (simp add: size_list_estimation')
  then show ?thesis using JObj by simp
next
  case (JArr xs)
  assume "(k, v) \<in> set (own_props obj)"
  then have "v \<in> set xs" using JArr by (auto simp: indexed_def dest: set_zip_rightD)
  then have "size v \<le> size_list size xs" by (simp add: size_list_estimation')
  then show ?thesis using JArr by simp
next
  case (JStr s)
  assume "(k, v) \<in> set (own_props obj)"
  then show ?thesis using JStr by (auto simp: indexed_def)
qed simp_all

text \<open>
  The test \<open>obj.hasOwnProperty(key)\<close> calls whatever the property \<open>hasOwnProperty\<close> of
  \<open>obj\<close> is: an object with an own property of that name (whose value, being data, is
  not a function) makes the first test of the loop throw a \<open>TypeError\<close>.
\<close>

definition shadowsHasOwnProperty :: "jsval \<Rightarrow> bool" where
  "shadowsHasOwnProperty obj = (''hasOwnProperty'' \<in> set (keys_of obj))"

text \<open>Statements run in order: the first one that throws ends the run.\<close>

fun collect :: "(error + fields) list \<Rightarrow> error + fields" where
  "collect [] = Inr []"
| "collect (r # rs) =
     (case r of
        Inl err \<Rightarrow> Inl err
      | Inr flds \<Rightarrow> (case collect rs of Inl err \<Rightarrow> Inl err | Inr rest \<Rightarrow> Inr (flds @ rest)))"

text \<open>
  \<open>flattenAndAddToForm(formData, obj, prefix)\<close>, returning the fields appended to the
  form, in order, or the error thrown. The outer \<open>collect (map ...)\<close> is the
  \<open>for (const key in obj)\<close> loop, the inner one the \<open>value.forEach\<close> over an array value.
\<close>

function flattenAndAddToForm :: "string \<Rightarrow> jsval \<Rightarrow> error + fields" where
  "flattenAndAddToForm prefix obj =
     (if shadowsHasOwnProperty obj
      then Inl (JsError ''TypeError: obj.hasOwnProperty is not a function'')
      else
        collect (map (\<lambda>(key, v).
          (case v of
             JObj kvs \<Rightarrow> flattenAndAddToForm (formKey prefix key) v
           | JArr items \<Rightarrow>
               collect (map (\<lambda>(index, item).
                 if typeof_object item
                 then flattenAndAddToForm (bracketKey (formKey prefix key) index) item
                 else Inr [(bracketKey (formKey prefix key) index, item)]) (indexed items))
           | _ \<Rightarrow> Inr [(formKey prefix key, v)])) (own_props obj)))"
  by pat_completeness auto
termination
proof (relation "measure (\<lambda>(prefix, obj). size obj)", goal_cases)
  case 1
  show ?case by simp
next
  case (2 prefix obj kv key v kvs)
  then show ?case using own_props_size [of key v obj] by auto
next
  case (3 prefix obj kv key v items ix index item)
  then have "item \<in> set items" by (auto simp: indexed_def dest: set_zip_rightD)
  then have "size item \<le> size_list size items" by (simp add: size_list_estimation')
  moreover have "size v < size obj" using 3 own_props_size [of key v obj] by auto
  ultimately show ?case using 3 by simp
qed

declare flattenAndAddToForm.simps [simp del]

section \<open>Transport and retry (API module)\<close>

datatype body =
    JsonBody jsval
  | FormBody fields "(string \<times> string) list"

record request =
  req_method :: string
  req_url :: string
  req_body :: body

text \<open>
  What one logical send does, in order: \<open>Invoke k\<close> is the call of the request function
  for attempt \<open>k\<close>, \<open>Sleep ms\<close> the timer awaited between attempts, \<open>OpenFile p\<close> a
  read stream created on \<open>p\<close>, and \<open>Http r\<close> a request handed to the HTTP client.
\<close>

datatype event =
    Invoke int
  | Sleep int
  | OpenFile string
  | Http request

type_synonym 'a outcome = "event list \<times> (error + 'a)"

text \<open>
  The loop of \<open>retryRequest\<close>. The request function is given by what its call for each
  attempt does and returns. Falling out of the loop returns \<open>undefined\<close>.
\<close>

function retry_loop :: "int \<Rightarrow> int \<Rightarrow> (int \<Rightarrow> jsval outcome) \<Rightarrow> int \<Rightarrow> jsval outcome" where
  "retry_loop retries delay requestFn attempt =
     (if attempt \<le> retries then
        (case requestFn attempt of
           (evs, Inr v) \<Rightarrow> (Invoke attempt # evs, Inr v)
         | (evs, Inl err) \<Rightarrow>
             (if attempt = retries then (Invoke attempt # evs, Inl err)
              else
                (case retry_loop retries delay requestFn (attempt + 1) of
                   (evs', r) \<Rightarrow> (Invoke attempt # evs @ Sleep (delay * attempt) # evs', r))))
      else ([], Inr JUndefined))"
  by pat_completeness auto
termination
  by (relation "measure (\<lambda>(retries, delay, requestFn, attempt). nat (retries + 1 - attempt))") auto

declare retry_loop.simps [simp del]

definition retryRequest :: "config \<Rightarrow> int option \<Rightarrow> (int \<Rightarrow> jsval outcome) \<Rightarrow> jsval outcome" where
  "retryRequest cfg maxRetries requestFn =
     (let retries = (if truthy_num maxRetries then the maxRetries else retryAttempts cfg);
          delay = retryDelay cfg
      in retry_loop retries delay requestFn 1)"

text \<open>The calls of the request function and the timers of a trace.\<close>

definition attempts_of :: "event list \<Rightarrow> int list" where
  "attempts_of evs = concat (map (\<lambda>e. case e of Invoke k \<Rightarrow> [k] | _ \<Rightarrow> []) evs)"

definition sleeps_of :: "event list \<Rightarrow> int list" where
  "sleeps_of evs = concat (map (\<lambda>e. case e of Sleep ms \<Rightarrow> [ms] | _ \<Rightarrow> []) evs)"

definition requests_of :: "event list \<Rightarrow> request list" where
  "requests_of evs = concat (map (\<lambda>e. case e of Http r \<Rightarrow> [r] | _ \<Rightarrow> []) evs)"

subsection \<open>Files\<close>

datatype fs_entry = Missing | RegularFile | Directory

type_synonym filesystem = "string \<Rightarrow> fs_entry"

definition existsSync :: "filesystem \<Rightarrow> string \<Rightarrow> bool" where
  "existsSync fs p = (fs p \<noteq> Missing)"

text \<open>\<open>path.basename\<close> on POSIX paths: the last segment, trailing slashes ignored.\<close>

definition basename :: "string \<Rightarrow> string" where
  "basename p =
     (let q = rev (dropWhile (\<lambda>c. c = CHR ''/'') (rev p))
      in rev (takeWhile (\<lambda>c. c \<noteq> CHR ''/'') (rev q)))"

text \<open>
  The network seen by one logical send: the response (or formatted error) that the HTTP
  client gives to the request issued in attempt \<open>k\<close>.
\<close>

type_synonym network = "int \<Rightarrow> request \<Rightarrow> error + jsval"

text \<open>The loop of \<open>sendWithFiles\<close> over the file paths: stops at the first missing path.\<close>

fun addFiles :: "filesystem \<Rightarrow> string list \<Rightarrow> event list \<times> (error + (string \<times> string) list)" where
  "addFiles fs [] = ([], Inr [])"
| "addFiles fs (filePath # rest) =
     (if \<not> existsSync fs filePath then ([], Inl (JsError (''File not found: '' @ filePath)))
      else
        (case addFiles fs rest of
           (evs, Inl err) \<Rightarrow> (OpenFile filePath # evs, Inl err)
         | (evs, Inr parts) \<Rightarrow> (OpenFile filePath # evs, Inr ((filePath, basename filePath) # parts))))"

definition sendWithFiles ::
  "filesystem \<Rightarrow> network \<Rightarrow> int \<Rightarrow> string \<Rightarrow> jsval \<Rightarrow> string list \<Rightarrow> jsval outcome" where
  "sendWithFiles fs net k endpoint data filePaths =
     (case flattenAndAddToForm [] data of
        Inl err \<Rightarrow> ([], Inl err)
      | Inr flds \<Rightarrow>
          (case addFiles fs filePaths of
             (evs, Inl err) \<Rightarrow> (evs, Inl err)
           | (evs, Inr parts) \<Rightarrow>
               (let r = \<lparr>req_method = ''POST'', req_url = endpoint, req_body = FormBody flds parts\<rparr>
                in (evs @ [Http r], net k r))))"

definition post :: "network \<Rightarrow> int \<Rightarrow> string \<Rightarrow> jsval \<Rightarrow> jsval outcome" where
  "post net k endpoint data =
     (let r = \<lparr>req_method = ''POST'', req_url = endpoint, req_body = JsonBody data\<rparr>
      in ([Http r], net k r))"

definition sendRequestFn ::
  "filesystem \<Rightarrow> network \<Rightarrow> string \<Rightarrow> jsval \<Rightarrow> string list \<Rightarrow> int \<Rightarrow> jsval outcome" where
  "sendRequestFn fs net endpoint data files k =
     (if files \<noteq> [] then sendWithFiles fs net k endpoint data files
      else post net k endpoint data)"

definition sendUserData ::
  "config \<Rightarrow> filesystem \<Rightarrow> network \<Rightarrow> jsval \<Rightarrow> string list \<Rightarrow> jsval outcome" where
  "sendUserData cfg fs net userData files =
     (if \<not> truthy userData \<or> \<not> truthy (lookup_prop userData ''externalId'')
      then ([], Inl (JsError ''User data must include externalId''))
      else retryRequest cfg None (sendRequestFn fs net ''/data/users'' userData files))"

definition sendEntryData ::
  "config \<Rightarrow> filesystem \<Rightarrow> network \<Rightarrow> jsval \<Rightarrow> string list \<Rightarrow> jsval outcome" where
  "sendEntryData cfg fs net entryData files =
     (if \<not> truthy entryData \<or> \<not> truthy (lookup_prop entryData ''externalId'')
         \<or> \<not> truthy (lookup_prop entryData ''dataType'')
      then ([], Inl (JsError ''Entry data must include externalId and dataType''))
      else retryRequest cfg None (sendRequestFn fs net ''/data/entries'' entryData files))"

text \<open>
  The trace of a send whose request function fails in every attempt from \<open>a\<close> to \<open>N\<close>:
  each attempt's own events, and after every attempt but the last a timer of \<open>D * k\<close>.
\<close>

definition failing_trace :: "int \<Rightarrow> int \<Rightarrow> (int \<Rightarrow> event list) \<Rightarrow> int \<Rightarrow> event list" where
  "failing_trace N D evs a =
     concat (map (\<lambda>k. Invoke k # evs k @ (if k < N then [Sleep (D * k)] else [])) [a..N])"

subsection \<open>Batches\<close>

text \<open>An element of the array \<open>Promise.allSettled\<close> resolves to.\<close>

datatype settled = Fulfilled jsval | Rejected error

definition settle :: "jsval outcome \<Rightarrow> settled" where
  "settle out = (case snd out of Inl err \<Rightarrow> Rejected err | Inr v \<Rightarrow> Fulfilled v)"

text \<open>
  The loop of \<open>batchSendEntries\<close>: \<open>send i entry\<close> is the settled promise of
  \<open>this.sendEntryData(entry)\<close> for the entry at position \<open>i\<close> of the input. The state
  is the list of batches sliced so far and \<open>results\<close>. \<open>Promise.allSettled\<close> never
  rejects, so the \<open>catch\<close> branch of the source is unreachable and has no counterpart.
\<close>

function batch_loop ::
  "(nat \<Rightarrow> jsval \<Rightarrow> settled) \<Rightarrow> jsval list \<Rightarrow> nat \<Rightarrow> jsval list list \<times> settled list
     \<Rightarrow> jsval list list \<times> settled list" where
  "batch_loop send entries i (batches, results) =
     (if i < length entries then
        (let batch = take 10 (drop i entries);
             batchResults = map (\<lambda>(j, entry). send (i + j) entry) (indexed batch)
         in batch_loop send entries (i + 10) (batches @ [batch], results @ batchResults))
      else (batches, results))"
  by pat_completeness auto
termination
  by (relation "measure (\<lambda>(send, entries, i, st). length entries - i)") auto

declare batch_loop.simps [simp del]

text \<open>
  Each member of a batch is a logical send of its own: \<open>nets i\<close> is the network as the
  send of the entry at position \<open>i\<close> sees it.
\<close>

definition batch_run ::
  "config \<Rightarrow> filesystem \<Rightarrow> (nat \<Rightarrow> network) \<Rightarrow> jsval list \<Rightarrow> jsval list list \<times> settled list" where
  "batch_run cfg fs nets entries =
     batch_loop (\<lambda>i entry. settle (sendEntryData cfg fs (nets i) entry [])) entries 0 ([], [])"

definition batchSendEntries ::
  "config \<Rightarrow> filesystem \<Rightarrow> (nat \<Rightarrow> network) \<Rightarrow> jsval list \<Rightarrow> error + settled list" where
  "batchSendEntries cfg fs nets entries =
     (if entries = [] then Inl (JsError ''Entries must be a non-empty array'')
      else Inr (snd (batch_run cfg fs nets entries)))"

subsection \<open>Validation utilities (utilities module)\<close>




fun is_array :: "jsval \<Rightarrow> bool" where
  "is_array (JArr _) = True"
| "is_array _ = False"


text \<open>\<open>validateFilePaths\<close>; \<open>fsize\<close> gives the size that \<open>statSync\<close> reports.\<close>

record file_report =
  valid :: "string list"
  invalid :: "(string \<times> string) list"
  missing :: "(string \<times> string) list"
  totalSize :: nat

fun validateFilePaths :: "filesystem \<Rightarrow> (string \<Rightarrow> nat) \<Rightarrow> string list \<Rightarrow> file_report" where
  "validateFilePaths fs fsize [] = \<lparr>valid = [], invalid = [], missing = [], totalSize = 0\<rparr>"
| "validateFilePaths fs fsize (filePath # rest) =
     (let r = validateFilePaths fs fsize rest in
      if filePath = [] then r\<lparr>invalid := (filePath, ''Invalid path format'') # invalid r\<rparr>
      else if \<not> existsSync fs filePath then r\<lparr>missing := (filePath, ''File does not exist'') # missing r\<rparr>
      else if fs filePath \<noteq> RegularFile then r\<lparr>invalid := (filePath, ''Path is not a file'') # invalid r\<rparr>
      else r\<lparr>valid := filePath # valid r, totalSize := fsize filePath + totalSize r\<rparr>)"

section \<open>Health check (middleware.js)\<close>

text \<open>
  A caller-supplied probe: the \<open>name\<close> of the function (empty for an anonymous arrow
  function) and what awaiting its call gives, a thrown error with its message or a
  returned value.
\<close>

datatype probe_result = Throws string | Returns jsval

record probe =
  probe_name :: string
  probe_result :: probe_result

text \<open>\<open>obj[key] = v\<close> on the property list of an object.\<close>

fun set_prop :: "string \<Rightarrow> jsval \<Rightarrow> (string \<times> jsval) list \<Rightarrow> (string \<times> jsval) list" where
  "set_prop key v [] = [(key, v)]"
| "set_prop key v ((k, w) # kvs) = (if k = key then (k, v) # kvs else (k, w) # set_prop key v kvs)"

text \<open>\<open>{ status: result.status || 'healthy', ...result }\<close>\<close>

definition check_entry :: "jsval \<Rightarrow> jsval" where
  "check_entry result =
     (let s = lookup_prop result ''status'';
          st = (if truthy s then s else JStr ''healthy'')
      in JObj (foldl (\<lambda>props (k, v). set_prop k v props) [(''status'', st)] (own_props result)))"

definition failed_entry :: "string \<Rightarrow> jsval" where
  "failed_entry msg = JObj [(''status'', JStr ''unhealthy''), (''error'', JStr msg)]"

text \<open>
  The loop over \<open>customChecks\<close>, on the pair of \<open>health.status\<close> and \<open>health.checks\<close>.
  Reading \<open>result.status\<close> of a probe that returned \<open>null\<close> or \<open>undefined\<close> throws inside
  the probe's own \<open>try\<close>.
\<close>

fun run_checks :: "probe list \<Rightarrow> string \<times> (string \<times> jsval) list \<Rightarrow> string \<times> (string \<times> jsval) list" where
  "run_checks [] st = st"
| "run_checks (check # rest) (status, checks) =
     (let name = (if probe_name check \<noteq> [] then probe_name check else ''custom'') in
      case probe_result check of
        Returns result \<Rightarrow>
          (if result = JNull \<or> result = JUndefined
           then run_checks rest
                  (''degraded'',
                   set_prop name (failed_entry ''Cannot read properties of undefined'') checks)
           else run_checks rest (status, set_prop name (check_entry result) checks))
      | Throws msg \<Rightarrow> run_checks rest (''degraded'', set_prop name (failed_entry msg) checks))"

record health =
  h_status :: string
  h_checks :: "(string \<times> jsval) list"
  h_error :: "string option"

text \<open>
  The handler returned by \<open>healthCheck(customChecks)\<close>, as the HTTP status and the body
  it sends (without the timestamps, the uptime and the service identity). \<open>sys\<close> is what
  the basic system checks read (\<open>used\<close>, \<open>free\<close>, \<open>total\<close>) or the exception they raise;
  \<open>api\<close> is the outcome of \<open>this.api.healthCheck()\<close>, \<open>None\<close> when no API module is set.
\<close>

definition healthCheck ::
  "probe list \<Rightarrow> error + (jsval \<times> jsval \<times> jsval) \<Rightarrow> (error + jsval) option \<Rightarrow> int \<times> health" where
  "healthCheck customChecks sys api =
     (case sys of
        Inl (JsError msg) \<Rightarrow>
          (503, \<lparr>h_status = ''unhealthy'', h_checks = [], h_error = Some msg\<rparr>)
      | Inr (memUsed, memFree, memTotal) \<Rightarrow>
          (let checks0 =
                 [(''memory'', JObj [(''status'', JStr ''healthy''), (''used'', memUsed),
                                     (''free'', memFree), (''total'', memTotal)]),
                  (''disk'', JObj [(''status'', JStr ''healthy'')])];
               (status1, checks1) = run_checks customChecks (''healthy'', checks0);
               (status2, checks2) =
                 (case api of
                    None \<Rightarrow> (status1, checks1)
                  | Some (Inr v) \<Rightarrow>
                      (status1, set_prop ''kryosApi'' (JObj [(''status'', JStr ''healthy'')]) checks1)
                  | Some (Inl (JsError msg)) \<Rightarrow>
                      (''degraded'', set_prop ''kryosApi'' (failed_entry msg) checks1))
           in (if status2 = ''healthy'' then 200 else 503,
               \<lparr>h_status = status2, h_checks = checks2, h_error = None\<rparr>)))"

section \<open>Route patterns (middleware.js)\<close>

definition isDigit :: "char \<Rightarrow> bool" where
  "isDigit c = (c \<in> set ''0123456789'')"

text \<open>The character class \<open>[a-f0-9-]\<close>.\<close>

definition isUuidChar :: "char \<Rightarrow> bool" where
  "isUuidChar c = (c \<in> set ''abcdef0123456789-'')"

text \<open>The characters that \<open>.\<close> does not match, among the 8-bit characters of a request
  URL: line feed and carriage return.\<close>

definition isLineTerminator :: "char \<Rightarrow> bool" where
  "isLineTerminator c = (c = CHR 0x0A \<or> c = CHR 0x0D)"

text \<open>\<open>s.replace(/\/\d+/g, '/:id')\<close>: scanning from the left, a slash followed by digits
  is replaced together with all the digits that follow it.\<close>

function replaceIds :: "string \<Rightarrow> string" where
  "replaceIds [] = []"
| "replaceIds (c # cs) =
     (if c = CHR ''/'' \<and> takeWhile isDigit cs \<noteq> []
      then ''/:id'' @ replaceIds (dropWhile isDigit cs)
      else c # replaceIds cs)"
  by pat_completeness auto
termination
  by (relation "measure length") (auto simp: length_dropWhile_le less_Suc_eq_le)

declare replaceIds.simps [simp del]

text \<open>\<open>s.replace(/\/[a-f0-9-]{36}/g, '/:uuid')\<close>\<close>

function replaceUuids :: "string \<Rightarrow> string" where
  "replaceUuids [] = []"
| "replaceUuids (c # cs) =
     (if c = CHR ''/'' \<and> 36 \<le> length (takeWhile isUuidChar cs)
      then ''/:uuid'' @ replaceUuids (drop 36 cs)
      else c # replaceUuids cs)"
  by pat_completeness auto
termination
  by (relation "measure length") auto

declare replaceUuids.simps [simp del]

text \<open>\<open>s.replace(/\?.*$/, '')\<close>: the first question mark with no line terminator after
  it is removed together with the rest of the string.\<close>

fun stripQuery :: "string \<Rightarrow> string" where
  "stripQuery [] = []"
| "stripQuery (c # cs) =
     (if c = CHR ''?'' \<and> \<not> (\<exists>x \<in> set cs. isLineTerminator x) then [] else c # stripQuery cs)"

definition normalizeUrl :: "string \<Rightarrow> string" where
  "normalizeUrl url = stripQuery (replaceUuids (replaceIds url))"

text \<open>The request as \<open>getRoutePattern\<close> reads it: \<open>req.route.path\<close> when a route matched,
  and \<open>req.url\<close>.\<close>

record http_req =
  route_path :: "string option"
  url :: string

definition getRoutePattern :: "http_req \<Rightarrow> string" where
  "getRoutePattern req =
     (if truthy_str (route_path req) then the (route_path req) else normalizeUrl (url req))"


text \<open>Whether a pattern still has a match: a slash followed by a digit, and a slash
  followed by 36 characters of the class.\<close>

fun hasId :: "string \<Rightarrow> bool" where
  "hasId [] = False"
| "hasId (c # cs) = ((c = CHR ''/'' \<and> takeWhile isDigit cs \<noteq> []) \<or> hasId cs)"

fun hasUuid :: "string \<Rightarrow> bool" where
  "hasUuid [] = False"
| "hasUuid (c # cs) = ((c = CHR ''/'' \<and> 36 \<le> length (takeWhile isUuidChar cs)) \<or> hasUuid cs)"



section \<open>Re-nesting flattened fields\<close>

text \<open>
  Following the spec's words, "re-nesting the flattened fields by key path" (the
  repository has no such function): a field key is read as a path, a first property name
  followed by \<open>.name\<close> and \<open>[index]\<close> segments, and the field's value is stored at that
  path, creating objects and arrays on the way.
\<close>

datatype seg = Key string | Idx nat

definition isSpecial :: "char \<Rightarrow> bool" where
  "isSpecial c = (c = CHR ''.'' \<or> c = CHR ''['' \<or> c = CHR '']'')"










text \<open>
  The objects on which flattening succeeds and loses nothing: property names are
  non-empty, free of \<open>.\<close>, \<open>[\<close> and \<open>]\<close>, other than \<open>hasOwnProperty\<close>, and distinct
  within an object; nested objects and arrays are non-empty; the items of an array are
  scalars other than \<open>null\<close>, or objects.
\<close>

definition plainKey :: "string \<Rightarrow> bool" where
  "plainKey k = (k \<noteq> [] \<and> k \<noteq> ''hasOwnProperty'' \<and> (\<forall>c \<in> set k. \<not> isSpecial c))"

fun plainVal :: "jsval \<Rightarrow> bool" where
  "plainVal (JObj kvs) =
     (kvs \<noteq> [] \<and> distinct (map fst kvs) \<and> (\<forall>(k, v) \<in> set kvs. plainKey k \<and> plainVal v))"
| "plainVal (JArr items) =
     (items \<noteq> [] \<and> (\<forall>item \<in> set items. item \<noteq> JNull \<and> \<not> is_array item \<and> plainVal item))"
| "plainVal v = True"

definition plainObject :: "jsval \<Rightarrow> bool" where
  "plainObject obj =
     (case obj of
        JObj kvs \<Rightarrow> distinct (map fst kvs) \<and> (\<forall>(k, v) \<in> set kvs. plainKey k \<and> plainVal v)
      | _ \<Rightarrow> False)"


text \<open>How a path below a form key is spelt.\<close>

fun render_rest :: "seg list \<Rightarrow> string" where
  "render_rest [] = []"
| "render_rest (Key k # path) = ''.'' @ k @ render_rest path"
| "render_rest (Idx i # path) = ''['' @ show_nat i @ '']'' @ render_rest path"






section \<open>Properties of the configuration\<close>

lemma load_num_nonzero: "cur \<noteq> 0 \<Longrightarrow> load_num e opt cur \<noteq> 0"
  by (auto simp: load_num_def or_num_def truthy_num_def split: option.splits)

lemma load_num_fallback:
  "\<not> truthy_num (parseInt e) \<Longrightarrow> \<not> truthy_num opt \<Longrightarrow> load_num e opt cur = cur"
  by (auto simp: load_num_def or_num_def truthy_num_def split: option.splits)

lemma load_fields [simp]:
  "timeout (load e opts c) = load_num (KRYOS_TIMEOUT e) (opt_timeout opts) (timeout c)"
  "retryAttempts (load e opts c) =
     load_num (KRYOS_RETRY_ATTEMPTS e) (opt_retryAttempts opts) (retryAttempts c)"
  "retryDelay (load e opts c) = load_num (KRYOS_RETRY_DELAY e) (opt_retryDelay opts) (retryDelay c)"
  by (simp_all add: load_def)

lemma loads_nonzero:
  "timeout c \<noteq> 0 \<and> retryAttempts c \<noteq> 0 \<and> retryDelay c \<noteq> 0 \<Longrightarrow>
   timeout (loads ls c) \<noteq> 0 \<and> retryAttempts (loads ls c) \<noteq> 0 \<and> retryDelay (loads ls c) \<noteq> 0"
proof (induction ls arbitrary: c)
  case Nil
  then show ?case by simp
next
  case (Cons p ls)
  obtain e opts where p: "p = (e, opts)" by (cases p)
  have "timeout (load e opts c) \<noteq> 0 \<and> retryAttempts (load e opts c) \<noteq> 0
        \<and> retryDelay (load e opts c) \<noteq> 0"
    using Cons.prems by (simp add: load_num_nonzero)
  from Cons.IH [OF this] show ?case by (simp add: p)
qed

lemma Config_new_fields [simp]:
  "timeout Config_new = 30000" "retryAttempts Config_new = 3" "retryDelay Config_new = 1000"
  by (simp_all add: Config_new_def)

lemma parseInt_zero: "parseInt (Some ''0'') = Some 0"
  by (simp add: parseInt_def parseIntStr_def isWhiteSpace_def stripHexPrefix_def parseDigits_def
      isRadixDigit_def digitValue_def digitsValue_def)

lemma parseInt_None: "parseInt None = None"
  by (simp add: parseInt_def)

lemma load_num_zero_iff:
  "load_num e opt cur = 0 \<longleftrightarrow> \<not> truthy_num (parseInt e) \<and> \<not> truthy_num opt \<and> cur = 0"
  by (auto simp: load_num_def or_num_def truthy_num_def split: option.splits)

lemma load_num_env_zero:
  "parseInt x = Some 0 \<Longrightarrow> load_num x opt cur = load_num None opt cur"
  by (simp add: load_num_def or_num_def truthy_num_def parseInt_None)

text \<open>
  C10 (amended). \<open>Config.load\<close> treats a supplied 0 for \<open>timeout\<close>, \<open>retryAttempts\<close> or
  \<open>retryDelay\<close> as absent, whether it comes from the environment or from the options.
  When neither source gives a non-zero number the field keeps its current value: the
  defaults 30000, 3 and 1000 in a freshly constructed configuration, the value of the
  previous load afterwards. A load ends with a zero field only if the field was zero
  before it, so no sequence of loads into a fresh configuration ends with a zero
  timeout, retry ceiling or retry delay.
\<close>

theorem load_zero_is_absent:
  "(\<not> truthy_num (parseInt (KRYOS_TIMEOUT e)) \<and> \<not> truthy_num (opt_timeout opts)
      \<longrightarrow> timeout (load e opts c) = timeout c)
   \<and> (\<not> truthy_num (parseInt (KRYOS_RETRY_ATTEMPTS e)) \<and> \<not> truthy_num (opt_retryAttempts opts)
      \<longrightarrow> retryAttempts (load e opts c) = retryAttempts c)
   \<and> (\<not> truthy_num (parseInt (KRYOS_RETRY_DELAY e)) \<and> \<not> truthy_num (opt_retryDelay opts)
      \<longrightarrow> retryDelay (load e opts c) = retryDelay c)
   \<and> timeout Config_new = 30000 \<and> retryAttempts Config_new = 3 \<and> retryDelay Config_new = 1000
   \<and> (\<not> truthy_num (parseInt (KRYOS_TIMEOUT e)) \<and> \<not> truthy_num (opt_timeout opts)
      \<longrightarrow> timeout (load e opts Config_new) = 30000)
   \<and> (\<not> truthy_num (parseInt (KRYOS_RETRY_ATTEMPTS e)) \<and> \<not> truthy_num (opt_retryAttempts opts)
      \<longrightarrow> retryAttempts (load e opts Config_new) = 3)
   \<and> (\<not> truthy_num (parseInt (KRYOS_RETRY_DELAY e)) \<and> \<not> truthy_num (opt_retryDelay opts)
      \<longrightarrow> retryDelay (load e opts Config_new) = 1000)
   \<and> load e (opts\<lparr>opt_timeout := Some 0, opt_retryAttempts := Some 0, opt_retryDelay := Some 0\<rparr>) c
       = load e (opts\<lparr>opt_timeout := None, opt_retryAttempts := None, opt_retryDelay := None\<rparr>) c
   \<and> (parseInt (KRYOS_TIMEOUT e) = Some 0 \<and> parseInt (KRYOS_RETRY_ATTEMPTS e) = Some 0
        \<and> parseInt (KRYOS_RETRY_DELAY e) = Some 0
      \<longrightarrow> load e opts c
          = load (e\<lparr>KRYOS_TIMEOUT := None, KRYOS_RETRY_ATTEMPTS := None, KRYOS_RETRY_DELAY := None\<rparr>)
              opts c)
   \<and> (timeout (load e opts c) = 0 \<longrightarrow> timeout c = 0)
   \<and> (retryAttempts (load e opts c) = 0 \<longrightarrow> retryAttempts c = 0)
   \<and> (retryDelay (load e opts c) = 0 \<longrightarrow> retryDelay c = 0)
   \<and> timeout (loads ls Config_new) \<noteq> 0
   \<and> retryAttempts (loads ls Config_new) \<noteq> 0
   \<and> retryDelay (loads ls Config_new) \<noteq> 0"
proof -
  have zero_opt: "load_num x (Some 0) cur = load_num x None cur" for x cur
    by (simp add: load_num_def or_num_def truthy_num_def)
  have same: "load e (opts\<lparr>opt_timeout := Some 0, opt_retryAttempts := Some 0, opt_retryDelay := Some 0\<rparr>) c
       = load e (opts\<lparr>opt_timeout := None, opt_retryAttempts := None, opt_retryDelay := None\<rparr>) c"
    by (simp add: load_def zero_opt)
  have same_env: "load e opts c
      = load (e\<lparr>KRYOS_TIMEOUT := None, KRYOS_RETRY_ATTEMPTS := None, KRYOS_RETRY_DELAY := None\<rparr>) opts c"
    if "parseInt (KRYOS_TIMEOUT e) = Some 0" "parseInt (KRYOS_RETRY_ATTEMPTS e) = Some 0"
      "parseInt (KRYOS_RETRY_DELAY e) = Some 0"
    using that by (simp add: load_def load_num_env_zero)
  have nz: "timeout (loads ls Config_new) \<noteq> 0 \<and> retryAttempts (loads ls Config_new) \<noteq> 0
    \<and> retryDelay (loads ls Config_new) \<noteq> 0"
    by (rule loads_nonzero) simp
  have keep: "(\<not> truthy_num (parseInt (KRYOS_TIMEOUT e)) \<and> \<not> truthy_num (opt_timeout opts)
      \<longrightarrow> timeout (load e opts c') = timeout c')
   \<and> (\<not> truthy_num (parseInt (KRYOS_RETRY_ATTEMPTS e)) \<and> \<not> truthy_num (opt_retryAttempts opts)
      \<longrightarrow> retryAttempts (load e opts c') = retryAttempts c')
   \<and> (\<not> truthy_num (parseInt (KRYOS_RETRY_DELAY e)) \<and> \<not> truthy_num (opt_retryDelay opts)
      \<longrightarrow> retryDelay (load e opts c') = retryDelay c')" for c'
    by (simp add: load_num_fallback)
  have zero: "(timeout (load e opts c) = 0 \<longrightarrow> timeout c = 0)
   \<and> (retryAttempts (load e opts c) = 0 \<longrightarrow> retryAttempts c = 0)
   \<and> (retryDelay (load e opts c) = 0 \<longrightarrow> retryDelay c = 0)"
    by (simp add: load_num_zero_iff)
  show ?thesis
    using same same_env nz keep [of c] keep [of Config_new] zero by simp
qed

theorem load_zero_is_absent_witness:
  "timeout (load (empty_env\<lparr>KRYOS_TIMEOUT := Some ''0''\<rparr>)
      (no_options\<lparr>opt_timeout := Some 0, opt_retryAttempts := Some 0\<rparr>) Config_new) = 30000
   \<and> retryAttempts (load (empty_env\<lparr>KRYOS_TIMEOUT := Some ''0''\<rparr>)
      (no_options\<lparr>opt_timeout := Some 0, opt_retryAttempts := Some 0\<rparr>) Config_new) = 3
   \<and> retryDelay (load (empty_env\<lparr>KRYOS_TIMEOUT := Some ''0''\<rparr>)
      (no_options\<lparr>opt_timeout := Some 0, opt_retryAttempts := Some 0\<rparr>) Config_new) = 1000
   \<and> timeout (load (empty_env\<lparr>KRYOS_TIMEOUT := Some ''0''\<rparr>)
      (no_options\<lparr>opt_timeout := Some 0\<rparr>) (Config_new\<lparr>timeout := 5\<rparr>)) = 5"
proof -
  have env: "\<not> truthy_num (parseInt (KRYOS_TIMEOUT (empty_env\<lparr>KRYOS_TIMEOUT := Some ''0''\<rparr>)))"
    "\<not> truthy_num (parseInt (KRYOS_RETRY_ATTEMPTS (empty_env\<lparr>KRYOS_TIMEOUT := Some ''0''\<rparr>)))"
    "\<not> truthy_num (parseInt (KRYOS_RETRY_DELAY (empty_env\<lparr>KRYOS_TIMEOUT := Some ''0''\<rparr>)))"
    by (simp_all add: parseInt_zero parseInt_None truthy_num_def empty_env_def)
  have opt: "\<not> truthy_num (opt_timeout (no_options\<lparr>opt_timeout := Some 0, opt_retryAttempts := Some 0\<rparr>))"
    "\<not> truthy_num (opt_retryAttempts (no_options\<lparr>opt_timeout := Some 0, opt_retryAttempts := Some 0\<rparr>))"
    "\<not> truthy_num (opt_retryDelay (no_options\<lparr>opt_timeout := Some 0, opt_retryAttempts := Some 0\<rparr>))"
    "\<not> truthy_num (opt_timeout (no_options\<lparr>opt_timeout := Some 0\<rparr>))"
    by (simp_all add: truthy_num_def no_options_def)
  have fresh: "timeout (load (empty_env\<lparr>KRYOS_TIMEOUT := Some ''0''\<rparr>)
      (no_options\<lparr>opt_timeout := Some 0, opt_retryAttempts := Some 0\<rparr>) Config_new) = 30000
   \<and> retryAttempts (load (empty_env\<lparr>KRYOS_TIMEOUT := Some ''0''\<rparr>)
      (no_options\<lparr>opt_timeout := Some 0, opt_retryAttempts := Some 0\<rparr>) Config_new) = 3
   \<and> retryDelay (load (empty_env\<lparr>KRYOS_TIMEOUT := Some ''0''\<rparr>)
      (no_options\<lparr>opt_timeout := Some 0, opt_retryAttempts := Some 0\<rparr>) Config_new) = 1000"
    using load_zero_is_absent [of "empty_env\<lparr>KRYOS_TIMEOUT := Some ''0''\<rparr>"
        "no_options\<lparr>opt_timeout := Some 0, opt_retryAttempts := Some 0\<rparr>" Config_new "[]"]
      env opt(1-3)
    by blast
  have later: "timeout (load (empty_env\<lparr>KRYOS_TIMEOUT := Some ''0''\<rparr>)
      (no_options\<lparr>opt_timeout := Some 0\<rparr>) (Config_new\<lparr>timeout := 5\<rparr>)) = 5"
    using load_zero_is_absent [of "empty_env\<lparr>KRYOS_TIMEOUT := Some ''0''\<rparr>"
        "no_options\<lparr>opt_timeout := Some 0\<rparr>" "Config_new\<lparr>timeout := 5\<rparr>" "[]"]
      env(1) opt(4)
    by simp
  show ?thesis using fresh later by blast
qed

text \<open>
  A second load into the shared configuration: the 0 falls back to the 5 of the first
  load, not to the default 30000.
\<close>

theorem load_second_load_keeps_previous:
  "timeout (load empty_env (no_options\<lparr>opt_timeout := Some 0\<rparr>)
             (load empty_env (no_options\<lparr>opt_timeout := Some 5\<rparr>) Config_new)) = 5"
  by (simp add: load_num_def or_num_def truthy_num_def parseInt_None empty_env_def no_options_def)

text \<open>A field that is zero before the load (as \<open>update\<close> can make it) stays zero when
  nothing non-zero is supplied.\<close>

lemma load_keeps_zero:
  "retryAttempts (load empty_env no_options (Config_new\<lparr>retryAttempts := 0\<rparr>)) = 0"
  by (simp add: load_num_def or_num_def truthy_num_def parseInt_None empty_env_def no_options_def)

text \<open>
  C9. The JSON form of a configuration does not depend on \<open>keySecret\<close>: two
  configurations that differ only in \<open>keySecret\<close> serialize identically, the output
  has no \<open>keySecret\<close> property, and \<open>keyId\<close> appears only as \<open>***\<close> followed by its
  last four characters (or as \<open>null\<close> when it is missing or empty): the property
  \<open>keyId\<close> of the output has that value, and two configurations that differ only in
  non-empty key ids with the same last four characters serialize identically.
\<close>

theorem toJSON_hides_credentials:
  "toJSON (c\<lparr>keySecret := s\<rparr>) = toJSON c
   \<and> ''keySecret'' \<notin> set (keys_of (toJSON c))
   \<and> lookup_prop (toJSON c) ''keyId'' =
       (case keyId c of
          None \<Rightarrow> JNull
        | Some k \<Rightarrow> if k = [] then JNull else JStr (''***'' @ drop (length k - 4) k))
   \<and> (k1 \<noteq> [] \<and> k2 \<noteq> [] \<and> drop (length k1 - 4) k1 = drop (length k2 - 4) k2
      \<longrightarrow> toJSON (c\<lparr>keyId := Some k1\<rparr>) = toJSON (c\<lparr>keyId := Some k2\<rparr>))
   \<and> toJSON (c\<lparr>keyId := None\<rparr>) = toJSON (c\<lparr>keyId := Some []\<rparr>)"
  by (simp add: toJSON_def truthy_str_def slice_last4_def split: option.splits)

theorem toJSON_hides_credentials_witness:
  "toJSON (Config_new\<lparr>keyId := Some ''key_12345678'', keySecret := Some ''s3cr3t''\<rparr>)
     = toJSON (Config_new\<lparr>keyId := Some ''key_12345678''\<rparr>)
   \<and> lookup_prop (toJSON (Config_new\<lparr>keyId := Some ''key_12345678''\<rparr>)) ''keyId''
     = JStr ''***5678''
   \<and> toJSON (Config_new\<lparr>keyId := Some ''key_12345678''\<rparr>)
     = toJSON (Config_new\<lparr>keyId := Some ''other_id_5678''\<rparr>)"
proof -
  have a: "toJSON (Config_new\<lparr>keyId := Some ''key_12345678'', keySecret := Some ''s3cr3t''\<rparr>)
     = toJSON (Config_new\<lparr>keyId := Some ''key_12345678''\<rparr>)
   \<and> lookup_prop (toJSON (Config_new\<lparr>keyId := Some ''key_12345678''\<rparr>)) ''keyId''
     = JStr ''***5678''"
    using toJSON_hides_credentials
      [where c = "Config_new\<lparr>keyId := Some ''key_12345678''\<rparr>" and s = "Some ''s3cr3t''"]
    by simp
  have b: "toJSON (Config_new\<lparr>keyId := Some ''key_12345678''\<rparr>)
     = toJSON (Config_new\<lparr>keyId := Some ''other_id_5678''\<rparr>)"
    using toJSON_hides_credentials
      [where c = Config_new and ?k1.0 = "''key_12345678''" and ?k2.0 = "''other_id_5678''"]
    by simp
  show ?thesis using a b by blast
qed

text \<open>
  C8. The severity of a framework error is \<open>critical\<close> when it carries a status code of
  at least 500; \<open>warning\<close> when it carries a status code in [400, 500) or is named
  \<open>ValidationError\<close> or \<open>UnauthorizedError\<close>; and \<open>error\<close> in every other case.
\<close>

theorem getErrorSeverity_cases:
  "getErrorSeverity error =
     (if (\<exists>n. statusCode error = Some n \<and> n \<ge> 500) then ''critical''
      else if (\<exists>n. statusCode error = Some n \<and> 400 \<le> n \<and> n < 500)
              \<or> err_name error = Some ''ValidationError''
              \<or> err_name error = Some ''UnauthorizedError'' then ''warning''
      else ''error'')"
  by (cases "statusCode error") (auto simp: getErrorSeverity_def truthy_num_def)

theorem getErrorSeverity_cases_witness:
  "getErrorSeverity \<lparr>statusCode = Some 503, err_name = Some ''ValidationError''\<rparr> = ''critical''
   \<and> getErrorSeverity \<lparr>statusCode = Some 404, err_name = None\<rparr> = ''warning''
   \<and> getErrorSeverity \<lparr>statusCode = Some 200, err_name = Some ''UnauthorizedError''\<rparr> = ''warning''
   \<and> getErrorSeverity \<lparr>statusCode = None, err_name = Some ''TypeError''\<rparr> = ''error''"
  using getErrorSeverity_cases [of "\<lparr>statusCode = Some 503, err_name = Some ''ValidationError''\<rparr>"]
    getErrorSeverity_cases [of "\<lparr>statusCode = Some 404, err_name = None\<rparr>"]
    getErrorSeverity_cases [of "\<lparr>statusCode = Some 200, err_name = Some ''UnauthorizedError''\<rparr>"]
    getErrorSeverity_cases [of "\<lparr>statusCode = None, err_name = Some ''TypeError''\<rparr>"]
  by simp

section \<open>Properties of the retry loop\<close>

lemma retry_loop_failing:
  assumes "\<And>k. 1 \<le> k \<Longrightarrow> k \<le> N \<Longrightarrow> requestFn k = (evs k, Inl (err k))"
  shows "1 \<le> a \<Longrightarrow> a \<le> N \<Longrightarrow>
    retry_loop N D requestFn a = (failing_trace N D evs a, Inl (err N))"
proof (induction "nat (N - a)" arbitrary: a)
  case 0
  then have "a = N" by simp
  then show ?case
    using assms [of N] "0.prems"
    by (simp add: retry_loop.simps [of N D requestFn N] failing_trace_def)
next
  case (Suc n)
  then have lt: "a < N" by simp
  have IH: "retry_loop N D requestFn (a + 1) = (failing_trace N D evs (a + 1), Inl (err N))"
    using Suc by simp
  have up: "[a..N] = a # [a + 1..N]" using lt by (simp add: upto_rec1)
  show ?case
    using assms [of a] Suc.prems lt IH
    by (simp add: retry_loop.simps [of N D requestFn a] failing_trace_def up)
qed

lemma attempts_failing_trace:
  assumes "\<And>k. attempts_of (evs k) = []"
  shows "attempts_of (failing_trace N D evs a) = [a..N]"
proof (induction "nat (N + 1 - a)" arbitrary: a)
  case 0
  then show ?case by (simp add: failing_trace_def attempts_of_def)
next
  case (Suc n)
  then have le: "a \<le> N" by simp
  have up: "[a..N] = a # [a + 1..N]" using le by (simp add: upto_rec1)
  have "attempts_of (failing_trace N D evs (a + 1)) = [a + 1..N]" using Suc by simp
  then show ?case using assms [of a]
    by (simp add: failing_trace_def attempts_of_def up)
qed

lemma sleeps_failing_trace:
  assumes "\<And>k. sleeps_of (evs k) = []"
  shows "sleeps_of (failing_trace N D evs a) = map (\<lambda>k. D * k) [a..N - 1]"
proof (induction "nat (N + 1 - a)" arbitrary: a)
  case 0
  then show ?case by (simp add: failing_trace_def sleeps_of_def)
next
  case (Suc n)
  then have le: "a \<le> N" by simp
  have up: "[a..N] = a # [a + 1..N]" using le by (simp add: upto_rec1)
  have IH: "sleeps_of (failing_trace N D evs (a + 1)) = map (\<lambda>k. D * k) [a + 1..N - 1]"
    using Suc by simp
  show ?case
  proof (cases "a < N")
    case True
    then have up': "[a..N - 1] = a # [a + 1..N - 1]" by (simp add: upto_rec1)
    show ?thesis using assms [of a] IH True
      by (simp add: failing_trace_def sleeps_of_def up up')
  next
    case False
    then have "a = N" using le by simp
    then show ?thesis using assms [of a]
      by (simp add: failing_trace_def sleeps_of_def)
  qed
qed

lemma requests_failing_trace:
  assumes "\<And>k. requests_of (evs k) = []"
  shows "requests_of (failing_trace N D evs a) = []"
proof (induction "nat (N + 1 - a)" arbitrary: a)
  case 0
  then show ?case by (simp add: failing_trace_def requests_of_def)
next
  case (Suc n)
  then have le: "a \<le> N" by simp
  have up: "[a..N] = a # [a + 1..N]" using le by (simp add: upto_rec1)
  have "requests_of (failing_trace N D evs (a + 1)) = []" using Suc by simp
  then show ?case using assms [of a]
    by (simp add: failing_trace_def requests_of_def up)
qed

text \<open>With a ceiling below 1 the loop body never runs: no attempt, and \<open>undefined\<close>.\<close>

lemma retry_loop_no_attempt: "retries < a \<Longrightarrow> retry_loop retries D requestFn a = ([], Inr JUndefined)"
  by (simp add: retry_loop.simps [of retries D requestFn a])

text \<open>
  C1. A send with retry ceiling \<open>N \<ge> 1\<close> and base delay \<open>D\<close> whose request function fails
  in every attempt: the request function is called exactly for the attempts 1 to \<open>N\<close>,
  the timer awaited between attempt \<open>k\<close> and attempt \<open>k + 1\<close> is \<open>D * k\<close> milliseconds,
  and the error raised is the one of attempt \<open>N\<close>.
\<close>

theorem retryRequest_exhausts_retries:
  assumes "retryAttempts cfg = N" and "retryDelay cfg = D" and "1 \<le> N"
    and "\<And>k. 1 \<le> k \<Longrightarrow> k \<le> N \<Longrightarrow> requestFn k = (evs k, Inl (err k))"
    and "\<And>k. attempts_of (evs k) = [] \<and> sleeps_of (evs k) = []"
  shows "fst (retryRequest cfg None requestFn) = failing_trace N D evs 1
    \<and> attempts_of (fst (retryRequest cfg None requestFn)) = [1..N]
    \<and> sleeps_of (fst (retryRequest cfg None requestFn)) = map (\<lambda>k. D * k) [1..N - 1]
    \<and> snd (retryRequest cfg None requestFn) = Inl (err N)"
proof -
  have "retry_loop N D requestFn 1 = (failing_trace N D evs 1, Inl (err N))"
    using assms(3,4) by (intro retry_loop_failing) auto
  then have run: "retryRequest cfg None requestFn = (failing_trace N D evs 1, Inl (err N))"
    using assms(1,2) by (simp add: retryRequest_def truthy_num_def)
  show ?thesis
    using assms(5) by (simp add: run attempts_failing_trace sleeps_failing_trace)
qed

theorem retryRequest_exhausts_retries_witness:
  "retryRequest Config_new None (\<lambda>k. ([], Inl (JsError ''ECONNREFUSED'')))
     = ([Invoke 1, Sleep 1000, Invoke 2, Sleep 2000, Invoke 3], Inl (JsError ''ECONNREFUSED''))"
proof -
  have up: "[1..3::int] = [1, 2, 3]" by (simp add: upto_rec1)
  show ?thesis
    using retryRequest_exhausts_retries [of Config_new 3 1000
        "\<lambda>k. ([], Inl (JsError ''ECONNREFUSED''))" "\<lambda>k. []" "\<lambda>k. JsError ''ECONNREFUSED''"]
    by (simp add: failing_trace_def attempts_of_def sleeps_of_def up prod_eq_iff)
qed

section \<open>Properties of batch sends\<close>

lemma indexed_map: "map (\<lambda>(j, x). f (i + j) x) (indexed xs) = map (\<lambda>(k, x). f k x) (zip [i..<i + length xs] xs)"
proof -
  have "zip [i..<i + length xs] xs = map (\<lambda>(j, x). (i + j, x)) (zip [0..<length xs] xs)"
    by (induction xs arbitrary: i rule: rev_induct) (auto simp: )
  then show ?thesis by (simp add: indexed_def case_prod_unfold comp_def)
qed

lemma zip_upt_split:
  "map f (zip [i..<n] (drop i entries)) =
     map f (zip [i..<i + length (take 10 (drop i entries))] (take 10 (drop i entries)))
       @ map f (zip [i + 10..<n] (drop (i + 10) entries))" if "n = length entries"
proof (cases "i + 10 \<le> n")
  case True
  then have len: "length (take 10 (drop i entries)) = 10" using that by simp
  have "[i..<n] = [i..<i + 10] @ [i + 10..<n]"
    using True by (metis le_add1 upt_add_eq_append le_Suc_ex)
  moreover have "drop i entries = take 10 (drop i entries) @ drop (i + 10) entries"
    by (metis append_take_drop_id drop_drop add.commute)
  ultimately have "zip [i..<n] (drop i entries) =
      zip [i..<i + 10] (take 10 (drop i entries)) @ zip [i + 10..<n] (drop (i + 10) entries)"
    using len by (metis zip_append length_upt add_diff_cancel_left')
  then show ?thesis using True that by (simp add: min_def)
next
  case False
  then have "take 10 (drop i entries) = drop i entries" using that by simp
  moreover have "[i + 10..<n] = []" using False by simp
  moreover have "i + length (drop i entries) = n \<or> drop i entries = []" using that by auto
  ultimately show ?thesis by auto
qed

lemma batch_loop_results:
  "snd (batch_loop send entries i (bs, rs)) =
     rs @ map (\<lambda>(k, x). send k x) (zip [i..<length entries] (drop i entries))"
proof (induction send entries i "(bs, rs)" arbitrary: bs rs rule: batch_loop.induct)
  case (1 send entries i batches results)
  show ?case
  proof (cases "i < length entries")
    case False
    then show ?thesis by (subst batch_loop.simps) simp
  next
    case True
    have "snd (batch_loop send entries i (batches, results)) =
        snd (batch_loop send entries (i + 10)
          (batches @ [take 10 (drop i entries)],
           results @ map (\<lambda>(j, entry). send (i + j) entry) (indexed (take 10 (drop i entries)))))"
      using True by (subst batch_loop.simps) (simp add: Let_def)
    also have "\<dots> = (results @ map (\<lambda>(j, entry). send (i + j) entry) (indexed (take 10 (drop i entries))))
        @ map (\<lambda>(k, x). send k x) (zip [i + 10..<length entries] (drop (i + 10) entries))"
      using True by (intro "1.hyps") auto
    also have "\<dots> = results @ map (\<lambda>(k, x). send k x) (zip [i..<length entries] (drop i entries))"
      by (simp only: indexed_map append_assoc zip_upt_split [OF refl, of "\<lambda>(k, x). send k x" i entries])
    finally show ?thesis .
  qed
qed

lemma batch_loop_concat:
  "concat (fst (batch_loop send entries i (bs, rs))) = concat bs @ drop i entries"
proof (induction send entries i "(bs, rs)" arbitrary: bs rs rule: batch_loop.induct)
  case (1 send entries i batches results)
  show ?case
  proof (cases "i < length entries")
    case False
    then show ?thesis by (subst batch_loop.simps) simp
  next
    case True
    have "concat (fst (batch_loop send entries i (batches, results))) =
        concat (fst (batch_loop send entries (i + 10)
          (batches @ [take 10 (drop i entries)],
           results @ map (\<lambda>(j, entry). send (i + j) entry) (indexed (take 10 (drop i entries))))))"
      using True by (subst batch_loop.simps) (simp add: Let_def)
    also have "\<dots> = concat (batches @ [take 10 (drop i entries)]) @ drop (i + 10) entries"
      using True by (intro "1.hyps") auto
    also have "\<dots> = concat batches @ drop i entries"
    proof -
      have "take 10 (drop i entries) @ drop (i + 10) entries = drop i entries"
        by (metis append_take_drop_id drop_drop add.commute)
      then show ?thesis by simp
    qed
    finally show ?thesis .
  qed
qed

lemma batch_loop_length:
  "length (fst (batch_loop send entries i (bs, rs))) = length bs + (length entries - i + 9) div 10"
proof (induction send entries i "(bs, rs)" arbitrary: bs rs rule: batch_loop.induct)
  case (1 send entries i batches results)
  show ?case
  proof (cases "i < length entries")
    case False
    then show ?thesis by (subst batch_loop.simps) simp
  next
    case True
    have "length (fst (batch_loop send entries i (batches, results))) =
        length (fst (batch_loop send entries (i + 10)
          (batches @ [take 10 (drop i entries)],
           results @ map (\<lambda>(j, entry). send (i + j) entry) (indexed (take 10 (drop i entries))))))"
      using True by (subst batch_loop.simps) (simp add: Let_def)
    also have "\<dots> = length (batches @ [take 10 (drop i entries)]) + (length entries - (i + 10) + 9) div 10"
      using True by (intro "1.hyps") auto
    also have "\<dots> = length batches + (length entries - i + 9) div 10"
    proof (cases "i + 10 \<le> length entries")
      case le: True
      then have "length entries - i + 9 = (length entries - (i + 10) + 9) + 10" by simp
      then have "(length entries - i + 9) div 10 = (length entries - (i + 10) + 9) div 10 + 1"
        by (metis div_add_self2 zero_neq_numeral)
      then show ?thesis by simp
    next
      case gt: False
      then have "(length entries - (i + 10) + 9) div 10 = 0" by simp
      moreover have "(length entries - i + 9) div 10 = 1" using gt True by simp
      ultimately show ?thesis by simp
    qed
    finally show ?thesis .
  qed
qed

lemma batch_loop_sizes:
  "\<forall>b \<in> set bs. b \<noteq> [] \<and> length b \<le> 10 \<Longrightarrow>
   \<forall>b \<in> set (fst (batch_loop send entries i (bs, rs))). b \<noteq> [] \<and> length b \<le> 10"
proof (induction send entries i "(bs, rs)" arbitrary: bs rs rule: batch_loop.induct)
  case (1 send entries i batches results)
  show ?case
  proof (cases "i < length entries")
    case False
    then show ?thesis using "1.prems" by (subst batch_loop.simps) simp
  next
    case True
    have eq: "fst (batch_loop send entries i (batches, results)) =
        fst (batch_loop send entries (i + 10)
          (batches @ [take 10 (drop i entries)],
           results @ map (\<lambda>(j, entry). send (i + j) entry) (indexed (take 10 (drop i entries)))))"
      using True by (subst batch_loop.simps) (simp add: Let_def)
    have "\<forall>b \<in> set (batches @ [take 10 (drop i entries)]). b \<noteq> [] \<and> length b \<le> 10"
      using True "1.prems" by auto
    with True show ?thesis unfolding eq by (intro "1.hyps" refl) simp_all
  qed
qed

text \<open>The batches are cut every 10 entries: batch \<open>j\<close> is \<open>entries.slice(10 j, 10 j + 10)\<close>.\<close>

lemma batch_loop_partition:
  "fst (batch_loop send entries i (bs, rs)) =
     bs @ map (\<lambda>j. take 10 (drop (i + 10 * j) entries)) [0..<(length entries - i + 9) div 10]"
proof (induction send entries i "(bs, rs)" arbitrary: bs rs rule: batch_loop.induct)
  case (1 send entries i batches results)
  show ?case
  proof (cases "i < length entries")
    case False
    then show ?thesis by (subst batch_loop.simps) simp
  next
    case True
    let ?m = "(length entries - (i + 10) + 9) div 10"
    have count: "(length entries - i + 9) div 10 = Suc ?m"
    proof (cases "i + 10 \<le> length entries")
      case le: True
      then have "length entries - i + 9 = (length entries - (i + 10) + 9) + 10" by simp
      then have "(length entries - i + 9) div 10 = (length entries - (i + 10) + 9) div 10 + 1"
        by (metis div_add_self2 zero_neq_numeral)
      then show ?thesis by simp
    next
      case gt: False
      then have "(length entries - (i + 10) + 9) div 10 = 0" by simp
      moreover have "(length entries - i + 9) div 10 = 1" using gt True by simp
      ultimately show ?thesis by simp
    qed
    have "fst (batch_loop send entries i (batches, results)) =
        fst (batch_loop send entries (i + 10)
          (batches @ [take 10 (drop i entries)],
           results @ map (\<lambda>(j, entry). send (i + j) entry) (indexed (take 10 (drop i entries)))))"
      using True by (subst batch_loop.simps) (simp add: Let_def)
    also have "\<dots> = (batches @ [take 10 (drop i entries)])
        @ map (\<lambda>j. take 10 (drop (i + 10 + 10 * j) entries)) [0..<?m]"
      using True by (intro "1.hyps") auto
    also have "\<dots> = batches
        @ map (\<lambda>j. take 10 (drop (i + 10 * j) entries)) [0..<Suc ?m]"
      by (simp add: map_upt_Suc add.assoc del: upt_Suc)
    finally show ?thesis by (simp only: count)
  qed
qed

lemma batch_results:
  "snd (batch_run cfg fs nets entries) =
     map (\<lambda>(i, entry). settle (sendEntryData cfg fs (nets i) entry [])) (indexed entries)"
  by (simp add: batch_run_def batch_loop_results indexed_def)

lemma batch_results_nth:
  assumes "i < length entries"
  shows "snd (batch_run cfg fs nets entries) ! i = settle (sendEntryData cfg fs (nets i) (entries ! i) [])"
  using assms by (simp add: batch_results indexed_def)

text \<open>
  C7 (amended). For every non-empty input sequence, \<open>batchSendEntries\<close> partitions it
  into chunks of size 10: chunk \<open>j\<close> is \<open>entries.slice(10 j, 10 j + 10)\<close>, so only the last
  chunk can be shorter, there are \<open>\<lceil>n / 10\<rceil>\<close> chunks and 25 entries give 3. It returns
  one settled outcome per entry, in input order: the outcome at position \<open>i\<close> is that of
  the send of entry \<open>i\<close> alone, so replacing any other entry, or the network behaviour
  any other entry meets, leaves it unchanged.
\<close>

theorem batchSendEntries_independent:
  assumes "entries \<noteq> []"
  shows "\<exists>results. batchSendEntries cfg fs nets entries = Inr results
     \<and> length results = length entries
     \<and> (\<forall>i < length entries.
          results ! i = settle (sendEntryData cfg fs (nets i) (entries ! i) []))
     \<and> (\<forall>j x net'. \<exists>results'.
          batchSendEntries cfg fs (nets(j := net')) (entries[j := x]) = Inr results'
          \<and> length results' = length results
          \<and> (\<forall>i < length entries. i \<noteq> j \<longrightarrow> results' ! i = results ! i))
     \<and> fst (batch_run cfg fs nets entries)
         = map (\<lambda>j. take 10 (drop (10 * j) entries)) [0..<(length entries + 9) div 10]
     \<and> concat (fst (batch_run cfg fs nets entries)) = entries
     \<and> length (fst (batch_run cfg fs nets entries)) = (length entries + 9) div 10
     \<and> (\<forall>b \<in> set (fst (batch_run cfg fs nets entries)). b \<noteq> [] \<and> length b \<le> 10)"
proof -
  let ?results = "snd (batch_run cfg fs nets entries)"
  have run: "batchSendEntries cfg fs nets entries = Inr ?results"
    using assms by (simp add: batchSendEntries_def)
  have len: "length ?results = length entries"
    by (simp add: batch_results indexed_def)
  have nth: "\<forall>i < length entries. ?results ! i = settle (sendEntryData cfg fs (nets i) (entries ! i) [])"
    by (simp add: batch_results_nth)
  have other: "\<exists>results'. batchSendEntries cfg fs (nets(j := net')) (entries[j := x]) = Inr results'
          \<and> length results' = length ?results
          \<and> (\<forall>i < length entries. i \<noteq> j \<longrightarrow> results' ! i = ?results ! i)" for j x net'
  proof -
    have "entries[j := x] \<noteq> []" using assms by simp
    then have "batchSendEntries cfg fs (nets(j := net')) (entries[j := x])
        = Inr (snd (batch_run cfg fs (nets(j := net')) (entries[j := x])))"
      by (simp add: batchSendEntries_def)
    moreover have "length (snd (batch_run cfg fs (nets(j := net')) (entries[j := x]))) = length ?results"
      by (simp add: batch_results indexed_def)
    moreover have "\<forall>i < length entries. i \<noteq> j \<longrightarrow>
        snd (batch_run cfg fs (nets(j := net')) (entries[j := x])) ! i = ?results ! i"
      by (simp add: batch_results_nth)
    ultimately show ?thesis by blast
  qed
  have chunks: "concat (fst (batch_run cfg fs nets entries)) = entries"
    "length (fst (batch_run cfg fs nets entries)) = (length entries + 9) div 10"
    by (simp_all add: batch_run_def batch_loop_concat batch_loop_length)
  have sizes: "\<forall>b \<in> set (fst (batch_run cfg fs nets entries)). b \<noteq> [] \<and> length b \<le> 10"
    unfolding batch_run_def by (rule batch_loop_sizes) simp
  have cuts: "fst (batch_run cfg fs nets entries)
      = map (\<lambda>j. take 10 (drop (10 * j) entries)) [0..<(length entries + 9) div 10]"
    by (simp add: batch_run_def batch_loop_partition)
  show ?thesis
  proof (intro exI [of _ ?results] conjI)
    show "fst (batch_run cfg fs nets entries)
        = map (\<lambda>j. take 10 (drop (10 * j) entries)) [0..<(length entries + 9) div 10]"
      by (rule cuts)
    show "\<forall>j x net'. \<exists>results'.
          batchSendEntries cfg fs (nets(j := net')) (entries[j := x]) = Inr results'
          \<and> length results' = length ?results
          \<and> (\<forall>i < length entries. i \<noteq> j \<longrightarrow> results' ! i = ?results ! i)"
      using other by blast
  qed (use run len nth chunks sizes in simp_all)
qed

theorem batchSendEntries_independent_witness:
  "(\<exists>results. batchSendEntries Config_new (\<lambda>p. Missing) (\<lambda>i k r. Inr JNull)
        (replicate 25 (JObj [(''externalId'', JStr ''e''), (''dataType'', JStr ''event_data'')]))
        = Inr results \<and> length results = 25)
   \<and> length (fst (batch_run Config_new (\<lambda>p. Missing) (\<lambda>i k r. Inr JNull)
        (replicate 25 (JObj [(''externalId'', JStr ''e''), (''dataType'', JStr ''event_data'')])))) = 3
   \<and> map length (fst (batch_run Config_new (\<lambda>p. Missing) (\<lambda>i k r. Inr JNull)
        (replicate 25 (JObj [(''externalId'', JStr ''e''), (''dataType'', JStr ''event_data'')]))))
       = [10, 10, 5]"
proof -
  have ne: "replicate 25 (JObj [(''externalId'', JStr ''e''), (''dataType'', JStr ''event_data'')]) \<noteq> []"
    by simp
  show ?thesis
    using batchSendEntries_independent [OF ne, of Config_new "\<lambda>p. Missing" "\<lambda>i k r. Inr JNull"]
    by (auto simp: upt_conv_Cons simp del: upt_Suc)
qed

text \<open>The guard of \<open>batchSendEntries\<close>: an empty input is rejected, not answered with an empty sequence.\<close>

theorem batchSendEntries_empty_rejected:
  "batchSendEntries Config_new (\<lambda>p. Missing) (\<lambda>i k r. Inr JNull) []
     = Inl (JsError ''Entries must be a non-empty array'')"
  by (simp add: batchSendEntries_def)

section \<open>Properties of sends\<close>

lemma requests_of_simps [simp]:
  "requests_of [] = []"
  "requests_of (Http r # evs) = r # requests_of evs"
  "requests_of (OpenFile p # evs) = requests_of evs"
  "requests_of (Invoke k # evs) = requests_of evs"
  "requests_of (Sleep ms # evs) = requests_of evs"
  "requests_of (evs @ evs') = requests_of evs @ requests_of evs'"
  by (simp_all add: requests_of_def)

lemma addFiles_missing:
  "\<exists>p \<in> set ps. \<not> existsSync fs p \<Longrightarrow>
   \<exists>p rest. dropWhile (existsSync fs) ps = p # rest
      \<and> addFiles fs ps
          = (map OpenFile (takeWhile (existsSync fs) ps), Inl (JsError (''File not found: '' @ p)))"
proof (induction ps)
  case Nil
  then show ?case by simp
next
  case (Cons q ps)
  show ?case
  proof (cases "existsSync fs q")
    case False
    then show ?thesis by simp
  next
    case True
    then have "\<exists>p \<in> set ps. \<not> existsSync fs p" using Cons.prems by auto
    from Cons.IH [OF this] obtain p rest where
      "dropWhile (existsSync fs) ps = p # rest"
      "addFiles fs ps
         = (map OpenFile (takeWhile (existsSync fs) ps), Inl (JsError (''File not found: '' @ p)))"
      by blast
    then show ?thesis using True by simp
  qed
qed

lemma requests_of_OpenFile [simp]: "requests_of (map OpenFile ps) = []"
  by (induction ps) simp_all

lemma sendWithFiles_missing:
  assumes "\<exists>p \<in> set filePaths. \<not> existsSync fs p"
  shows "(\<forall>err. flattenAndAddToForm [] data = Inl err \<longrightarrow>
            sendWithFiles fs net k endpoint data filePaths = ([], Inl err))
     \<and> (\<forall>flds. flattenAndAddToForm [] data = Inr flds \<longrightarrow>
            (\<exists>p rest. dropWhile (existsSync fs) filePaths = p # rest
               \<and> sendWithFiles fs net k endpoint data filePaths
                   = (map OpenFile (takeWhile (existsSync fs) filePaths),
                      Inl (JsError (''File not found: '' @ p)))))"
proof -
  from addFiles_missing [OF assms] obtain p rest where
    "dropWhile (existsSync fs) filePaths = p # rest"
    "addFiles fs filePaths
       = (map OpenFile (takeWhile (existsSync fs) filePaths), Inl (JsError (''File not found: '' @ p)))"
    by blast
  then show ?thesis by (simp add: sendWithFiles_def)
qed

lemma sendWithFiles_missing_fails:
  assumes "\<exists>p \<in> set filePaths. \<not> existsSync fs p"
  shows "\<exists>evs err. sendWithFiles fs net k endpoint data filePaths = (evs, Inl err)
     \<and> requests_of evs = []"
proof (cases "flattenAndAddToForm [] data")
  case (Inl err)
  then show ?thesis using sendWithFiles_missing [OF assms, of data net k endpoint] by simp
next
  case (Inr flds)
  then obtain p rest where
    "sendWithFiles fs net k endpoint data filePaths
       = (map OpenFile (takeWhile (existsSync fs) filePaths), Inl (JsError (''File not found: '' @ p)))"
    using sendWithFiles_missing [OF assms, of data net k endpoint] by blast
  then show ?thesis by simp
qed

lemma retryRequest_no_request:
  assumes "\<And>k. \<exists>evs err. requestFn k = (evs, Inl err) \<and> requests_of evs = []"
  shows "requests_of (fst (retryRequest cfg None requestFn)) = []
     \<and> (1 \<le> retryAttempts cfg \<longrightarrow> isl (snd (retryRequest cfg None requestFn)))"
proof (cases "1 \<le> retryAttempts cfg")
  case False
  then show ?thesis
    by (simp add: retryRequest_def truthy_num_def retry_loop_no_attempt)
next
  case True
  define evs where "evs k = fst (requestFn k)" for k
  define err where "err k = projl (snd (requestFn k))" for k
  have f: "requestFn k = (evs k, Inl (err k))" for k
    using assms [of k] by (auto simp: evs_def err_def)
  have q: "requests_of (evs k) = []" for k
    using assms [of k] by (auto simp: evs_def)
  have "retry_loop (retryAttempts cfg) (retryDelay cfg) requestFn 1
      = (failing_trace (retryAttempts cfg) (retryDelay cfg) evs 1, Inl (err (retryAttempts cfg)))"
    using True f by (intro retry_loop_failing) auto
  then show ?thesis
    using q by (simp add: retryRequest_def truthy_num_def requests_failing_trace)
qed

text \<open>
  C4 (amended). For every send with attached file paths of which one does not exist
  (\<open>fs.existsSync\<close> is false): every attempt fails before the request is built, with
  \<open>File not found\<close> for the first such path once the payload has been flattened (or with
  the error the flattening throws), so no HTTP request is issued for that send, and with
  a retry ceiling of at least 1 the send as a whole fails. Existence is all that is
  checked.
\<close>

theorem send_missing_file_no_request:
  assumes "\<exists>p \<in> set filePaths. \<not> existsSync fs p"
  shows "(\<exists>evs err. sendWithFiles fs net k endpoint data filePaths = (evs, Inl err)
            \<and> requests_of evs = [])
     \<and> (\<forall>err. flattenAndAddToForm [] data = Inl err \<longrightarrow>
            sendWithFiles fs net k endpoint data filePaths = ([], Inl err))
     \<and> (\<forall>flds. flattenAndAddToForm [] data = Inr flds \<longrightarrow>
            (\<exists>p rest. dropWhile (existsSync fs) filePaths = p # rest
               \<and> sendWithFiles fs net k endpoint data filePaths
                   = (map OpenFile (takeWhile (existsSync fs) filePaths),
                      Inl (JsError (''File not found: '' @ p)))))
     \<and> requests_of (fst (sendUserData cfg fs net data filePaths)) = []
     \<and> requests_of (fst (sendEntryData cfg fs net data filePaths)) = []
     \<and> (1 \<le> retryAttempts cfg \<longrightarrow>
          isl (snd (sendUserData cfg fs net data filePaths))
          \<and> isl (snd (sendEntryData cfg fs net data filePaths)))"
proof -
  have ne: "filePaths \<noteq> []" using assms by auto
  have fn: "\<exists>evs err. sendRequestFn fs net endpoint data filePaths k = (evs, Inl err)
      \<and> requests_of evs = []" for endpoint k
    using sendWithFiles_missing_fails [OF assms, of net k endpoint data] ne
    by (simp add: sendRequestFn_def)
  have user: "requests_of (fst (sendUserData cfg fs net data filePaths)) = []
     \<and> (1 \<le> retryAttempts cfg \<longrightarrow> isl (snd (sendUserData cfg fs net data filePaths)))"
    using retryRequest_no_request [of "sendRequestFn fs net ''/data/users'' data filePaths" cfg, OF fn]
    by (simp add: sendUserData_def)
  have entry: "requests_of (fst (sendEntryData cfg fs net data filePaths)) = []
     \<and> (1 \<le> retryAttempts cfg \<longrightarrow> isl (snd (sendEntryData cfg fs net data filePaths)))"
    using retryRequest_no_request [of "sendRequestFn fs net ''/data/entries'' data filePaths" cfg, OF fn]
    by (simp add: sendEntryData_def)
  show ?thesis
    using sendWithFiles_missing_fails [OF assms, of net k endpoint data]
      sendWithFiles_missing [OF assms, of data net k endpoint] user entry
    by blast
qed

theorem send_missing_file_no_request_witness:
  "requests_of (fst (sendEntryData Config_new (\<lambda>p. if p = ''a.txt'' then RegularFile else Missing)
       (\<lambda>k r. Inr JNull)
       (JObj [(''externalId'', JStr ''e1''), (''dataType'', JStr ''event_data'')])
       [''a.txt'', ''gone.txt''])) = []
   \<and> isl (snd (sendEntryData Config_new (\<lambda>p. if p = ''a.txt'' then RegularFile else Missing)
       (\<lambda>k r. Inr JNull)
       (JObj [(''externalId'', JStr ''e1''), (''dataType'', JStr ''event_data'')])
       [''a.txt'', ''gone.txt'']))
   \<and> sendWithFiles (\<lambda>p. if p = ''a.txt'' then RegularFile else Missing) (\<lambda>k r. Inr JNull) 1
       ''/data/entries'' (JObj [(''externalId'', JStr ''e1''), (''dataType'', JStr ''event_data'')])
       [''a.txt'', ''gone.txt'']
     = ([OpenFile ''a.txt''], Inl (JsError ''File not found: gone.txt''))"
proof -
  let ?fs = "\<lambda>p. if p = ''a.txt'' then RegularFile else Missing"
  let ?data = "JObj [(''externalId'', JStr ''e1''), (''dataType'', JStr ''event_data'')]"
  have missing: "\<exists>p \<in> set [''a.txt'', ''gone.txt'']. \<not> existsSync ?fs p"
    by (simp add: existsSync_def)
  have flat: "flattenAndAddToForm [] ?data
      = Inr [(''externalId'', JStr ''e1''), (''dataType'', JStr ''event_data'')]"
    by (simp add: flattenAndAddToForm.simps shadowsHasOwnProperty_def formKey_def)
  note inst = send_missing_file_no_request [OF missing, of "\<lambda>k r. Inr JNull" 1 "''/data/entries''"
      ?data Config_new]
  have a: "requests_of (fst (sendEntryData Config_new ?fs (\<lambda>k r. Inr JNull) ?data
       [''a.txt'', ''gone.txt''])) = []"
    and b: "isl (snd (sendEntryData Config_new ?fs (\<lambda>k r. Inr JNull) ?data [''a.txt'', ''gone.txt'']))"
    using inst by simp_all
  have "\<exists>p rest. dropWhile (existsSync ?fs) [''a.txt'', ''gone.txt''] = p # rest
      \<and> sendWithFiles ?fs (\<lambda>k r. Inr JNull) 1 ''/data/entries'' ?data [''a.txt'', ''gone.txt'']
          = (map OpenFile (takeWhile (existsSync ?fs) [''a.txt'', ''gone.txt'']),
             Inl (JsError (''File not found: '' @ p)))"
    using inst flat by blast
  then have c: "sendWithFiles ?fs (\<lambda>k r. Inr JNull) 1 ''/data/entries'' ?data [''a.txt'', ''gone.txt'']
      = ([OpenFile ''a.txt''], Inl (JsError ''File not found: gone.txt''))"
    by (auto simp: existsSync_def)
  show ?thesis using a b c by blast
qed

text \<open>The utility \<open>validateFilePaths\<close> does tell a directory from a regular file.\<close>

lemma validateFilePaths_directory:
  "p \<in> set filePaths \<Longrightarrow> p \<noteq> [] \<Longrightarrow> fs p = Directory \<Longrightarrow>
   (p, ''Path is not a file'') \<in> set (invalid (validateFilePaths fs fsize filePaths))"
  by (induction filePaths) (auto simp: Let_def existsSync_def)

text \<open>
  A payload with an own property named \<open>hasOwnProperty\<close> makes the flattening throw, before
  any file is looked at.
\<close>

lemma sendWithFiles_shadowed_hasOwnProperty:
  "sendWithFiles (\<lambda>p. Missing) (\<lambda>k r. Inr JNull) 1 ''/data/users''
      (JObj [(''externalId'', JStr ''u1''), (''hasOwnProperty'', JNum 1)]) [''gone.txt'']
   = ([], Inl (JsError ''TypeError: obj.hasOwnProperty is not a function''))"
  by (simp add: sendWithFiles_def flattenAndAddToForm.simps shadowsHasOwnProperty_def)

text \<open>A directory passes the existence check, and the request is handed to the HTTP client.\<close>

theorem sendWithFiles_directory_request:
  "sendWithFiles (\<lambda>p. if p = ''/tmp/uploads'' then Directory else Missing)
      (\<lambda>k r. Inl (JsError ''Request Error: EISDIR: illegal operation on a directory, read''))
      1 ''/data/users'' (JObj [(''externalId'', JStr ''u1'')]) [''/tmp/uploads'']
   = ([OpenFile ''/tmp/uploads'',
       Http \<lparr>req_method = ''POST'', req_url = ''/data/users'',
             req_body = FormBody [(''externalId'', JStr ''u1'')] [(''/tmp/uploads'', ''uploads'')]\<rparr>],
      Inl (JsError ''Request Error: EISDIR: illegal operation on a directory, read''))"
  by (simp add: sendWithFiles_def existsSync_def basename_def flattenAndAddToForm.simps formKey_def
      shadowsHasOwnProperty_def)





section \<open>Properties of route patterns\<close>

lemma replaceIds_Nil [simp]: "replaceIds [] = []"
  by (simp add: replaceIds.simps)

lemma replaceUuids_Nil [simp]: "replaceUuids [] = []"
  by (simp add: replaceUuids.simps)

lemma takeWhile_replaceIds:
  "\<not> P (CHR ''/'') \<Longrightarrow> takeWhile P (replaceIds s) = takeWhile P s"
  by (induction s rule: replaceIds.induct) (auto simp: replaceIds.simps)

lemma takeWhile_replaceUuids:
  "\<not> P (CHR ''/'') \<Longrightarrow> takeWhile P (replaceUuids s) = takeWhile P s"
  by (induction s rule: replaceUuids.induct) (auto simp: replaceUuids.simps)

lemma takeWhile_stripQuery:
  "\<not> P (CHR ''?'') \<Longrightarrow> takeWhile P (stripQuery s) = takeWhile P s"
  by (induction s) auto

lemma slash_not_digit [simp]: "\<not> isDigit (CHR ''/'')" "\<not> isDigit (CHR ''?'')" "\<not> isDigit (CHR '':'')"
  by (simp_all add: isDigit_def)

lemma slash_not_uuid [simp]:
  "\<not> isUuidChar (CHR ''/'')" "\<not> isUuidChar (CHR ''?'')" "\<not> isUuidChar (CHR '':'')"
  by (simp_all add: isUuidChar_def)

lemma replaceIds_fixed: "\<not> hasId s \<Longrightarrow> replaceIds s = s"
  by (induction s) (auto simp: replaceIds.simps)

lemma replaceUuids_fixed: "\<not> hasUuid s \<Longrightarrow> replaceUuids s = s"
  by (induction s) (auto simp: replaceUuids.simps)

lemma replaceIds_no_id: "\<not> hasId (replaceIds s)"
  by (induction s rule: replaceIds.induct)
    (auto simp: replaceIds.simps takeWhile_replaceIds)

lemma replaceUuids_no_uuid: "\<not> hasUuid (replaceUuids s)"
  by (induction s rule: replaceUuids.induct)
    (auto simp: replaceUuids.simps takeWhile_replaceUuids)

lemma hasId_drop: "hasId (drop n s) \<Longrightarrow> hasId s"
proof (induction s arbitrary: n)
  case Nil
  then show ?case by simp
next
  case (Cons c s)
  then show ?case by (cases n) auto
qed

lemma replaceUuids_keeps_no_id: "\<not> hasId s \<Longrightarrow> \<not> hasId (replaceUuids s)"
proof (induction s rule: replaceUuids.induct)
  case 1
  then show ?case by simp
next
  case (2 c cs)
  show ?case
  proof (cases "c = CHR ''/'' \<and> 36 \<le> length (takeWhile isUuidChar cs)")
    case True
    have "\<not> hasId (drop 36 cs)" using "2.prems" hasId_drop by auto
    then have "\<not> hasId (replaceUuids (drop 36 cs))" using True "2.IH"(1) by simp
    then show ?thesis using True by (simp add: replaceUuids.simps(2))
  next
    case False
    then have "\<not> hasId (replaceUuids cs)" using "2.IH"(2) "2.prems" by auto
    then show ?thesis using False "2.prems"
      by (auto simp: replaceUuids.simps(2) takeWhile_replaceUuids)
  qed
qed

lemma stripQuery_keeps_no_id: "\<not> hasId s \<Longrightarrow> \<not> hasId (stripQuery s)"
  by (induction s) (auto simp: takeWhile_stripQuery)

lemma stripQuery_keeps_no_uuid: "\<not> hasUuid s \<Longrightarrow> \<not> hasUuid (stripQuery s)"
  by (induction s) (auto simp: takeWhile_stripQuery)

lemma stripQuery_line_terminators:
  "(\<exists>x \<in> set (stripQuery s). isLineTerminator x) = (\<exists>x \<in> set s. isLineTerminator x)"
  by (induction s) (auto simp: isLineTerminator_def)

lemma stripQuery_idem: "stripQuery (stripQuery s) = stripQuery s"
  by (induction s) (simp_all add: stripQuery_line_terminators)

lemma normalizeUrl_idem: "normalizeUrl (normalizeUrl r) = normalizeUrl r"
proof -
  let ?s = "replaceUuids (replaceIds r)"
  have "\<not> hasId ?s" by (simp add: replaceUuids_keeps_no_id replaceIds_no_id)
  then have id: "\<not> hasId (stripQuery ?s)" by (rule stripQuery_keeps_no_id)
  have "\<not> hasUuid ?s" by (rule replaceUuids_no_uuid)
  then have uu: "\<not> hasUuid (stripQuery ?s)" by (rule stripQuery_keeps_no_uuid)
  show ?thesis
    by (simp add: normalizeUrl_def replaceIds_fixed [OF id] replaceUuids_fixed [OF uu] stripQuery_idem)
qed

text \<open>Normalizing twice gives the same pattern as normalizing once.\<close>

lemma getRoutePattern_idem:
  "getRoutePattern \<lparr>route_path = None, url = getRoutePattern \<lparr>route_path = None, url = r\<rparr>\<rparr>
     = getRoutePattern \<lparr>route_path = None, url = r\<rparr>"
  by (simp add: getRoutePattern_def truthy_str_def normalizeUrl_idem)

lemma getRoutePattern_examples:
  "getRoutePattern \<lparr>route_path = None, url = ''/users/123''\<rparr> = ''/users/:id''"
  "getRoutePattern \<lparr>route_path = None, url = ''/search?q=x''\<rparr> = ''/search''"
  "getRoutePattern \<lparr>route_path = None, url = ''/users/afa85f64-5717-4562-b3fc-2c963f66afa6''\<rparr>
     = ''/users/:uuid''"
  by (simp_all add: getRoutePattern_def truthy_str_def, code_simp, code_simp, code_simp)

text \<open>
  C5. Route normalization is idempotent, and it maps \<open>/users/123\<close> to \<open>/users/:id\<close> and
  \<open>/search?q=x\<close> to \<open>/search\<close> (the lemmas above). The UUID of the example starts with a
  digit: the numeric replacement, which runs first, rewrites its first character, and
  the 36-character pattern no longer matches what is left.
\<close>

theorem getRoutePattern_uuid_leading_digit:
  "getRoutePattern \<lparr>route_path = None, url = ''/users/3fa85f64-5717-4562-b3fc-2c963f66afa6''\<rparr>
     = ''/users/:idfa85f64-5717-4562-b3fc-2c963f66afa6''"
  by (simp add: getRoutePattern_def truthy_str_def) code_simp

section \<open>Properties of the health check\<close>

text \<open>A probe counts as failed when it throws or returns \<open>null\<close> or \<open>undefined\<close>.\<close>

lemma run_checks_status:
  "fst (run_checks customChecks (status, checks)) =
     (if \<exists>check \<in> set customChecks.
           (case probe_result check of
              Throws msg \<Rightarrow> True
            | Returns result \<Rightarrow> result = JNull \<or> result = JUndefined)
      then ''degraded'' else status)"
proof (induction customChecks arbitrary: status checks)
  case Nil
  then show ?case by simp
next
  case (Cons check rest)
  show ?case
  proof (cases "probe_result check")
    case (Throws msg)
    then show ?thesis using Cons.IH by (simp add: Let_def)
  next
    case (Returns result)
    then show ?thesis using Cons.IH by (simp add: Let_def)
  qed
qed

text \<open>
  The overall status: \<open>unhealthy\<close> exactly when the basic system checks raise, otherwise
  \<open>degraded\<close> exactly when a probe throws (or returns nothing) or the API ping fails.
  The \<open>status\<close> a probe returns is stored in its entry and never read again.
\<close>

lemma healthCheck_status:
  "h_status (snd (healthCheck customChecks sys api)) =
     (if isl sys then ''unhealthy''
      else if (\<exists>check \<in> set customChecks.
                 (case probe_result check of
                    Throws msg \<Rightarrow> True
                  | Returns result \<Rightarrow> result = JNull \<or> result = JUndefined))
              \<or> (\<exists>err. api = Some (Inl err))
      then ''degraded'' else ''healthy'')"
proof (cases sys)
  case (Inl err)
  then show ?thesis by (cases err) (simp add: healthCheck_def)
next
  case (Inr info)
  obtain memUsed memFree memTotal where info: "info = (memUsed, memFree, memTotal)"
    by (cases info)
  define checks0 where "checks0 =
    [(''memory'', JObj [(''status'', JStr ''healthy''), (''used'', memUsed),
                        (''free'', memFree), (''total'', memTotal)]),
     (''disk'', JObj [(''status'', JStr ''healthy'')])]"
  obtain status1 checks1 where rc: "run_checks customChecks (''healthy'', checks0) = (status1, checks1)"
    by (cases "run_checks customChecks (''healthy'', checks0)")
  have st1: "status1 =
     (if \<exists>check \<in> set customChecks.
           (case probe_result check of
              Throws msg \<Rightarrow> True
            | Returns result \<Rightarrow> result = JNull \<or> result = JUndefined)
      then ''degraded'' else ''healthy'')"
    using run_checks_status [of customChecks "''healthy''" checks0] rc by simp
  show ?thesis
  proof (cases api)
    case None
    then show ?thesis
      unfolding healthCheck_def Inr info by (simp add: rc [unfolded checks0_def] st1)
  next
    case (Some r)
    show ?thesis
    proof (cases r)
      case (Inl err)
      then show ?thesis
        unfolding healthCheck_def Inr info Some
        by (cases err) (simp add: rc [unfolded checks0_def])
    next
      case r: (Inr v)
      then show ?thesis
        unfolding healthCheck_def Inr info Some by (simp add: rc [unfolded checks0_def] st1)
    qed
  qed
qed

text \<open>
  When the basic system checks raise (as \<open>require('os')\<close> does where \<open>require\<close> is not
  defined), no probe is run and the answer is \<open>unhealthy\<close>, whatever the probes are.
\<close>

lemma healthCheck_system_checks_raise:
  "healthCheck customChecks (Inl (JsError msg)) api
     = (503, \<lparr>h_status = ''unhealthy'', h_checks = [], h_error = Some msg\<rparr>)"
  by (simp add: healthCheck_def)

text \<open>
  C2. A probe written as the README shows, returning \<open>{ name: 'database', status:
  'unhealthy' }\<close>, with everything else healthy: the probe's entry records \<open>unhealthy\<close>,
  yet the overall status stays \<open>healthy\<close> and the response code is 200.
\<close>

theorem healthCheck_unhealthy_probe_ignored:
  "healthCheck
     [\<lparr>probe_name = [],
        probe_result = Returns (JObj [(''name'', JStr ''database''), (''status'', JStr ''unhealthy'')])\<rparr>]
     (Inr (JNum 1, JNum 2, JNum 3)) (Some (Inr (JObj [])))
   = (200,
      \<lparr>h_status = ''healthy'',
        h_checks =
          [(''memory'', JObj [(''status'', JStr ''healthy''), (''used'', JNum 1),
                              (''free'', JNum 2), (''total'', JNum 3)]),
           (''disk'', JObj [(''status'', JStr ''healthy'')]),
           (''custom'', JObj [(''status'', JStr ''unhealthy''), (''name'', JStr ''database'')]),
           (''kryosApi'', JObj [(''status'', JStr ''healthy'')])],
        h_error = None\<rparr>)"
  by (simp add: healthCheck_def check_entry_def)

section \<open>Properties of flattening and re-nesting\<close>






lemma takeWhile_render_rest [simp]: "takeWhile (\<lambda>x. \<not> isSpecial x) (render_rest path) = []"
  by (cases path rule: render_rest.cases) (simp_all add: isSpecial_def)

lemma dropWhile_render_rest [simp]:
  "dropWhile (\<lambda>x. \<not> isSpecial x) (render_rest path) = render_rest path"
  by (cases path rule: render_rest.cases) (simp_all add: isSpecial_def)




































text \<open>Other losses: a dotted property name, an array inside an array, a \<open>null\<close> item.\<close>

lemma flatten_collisions:
  "flattenAndAddToForm [] (JObj [(''a.b'', JNum 1)])
     = flattenAndAddToForm [] (JObj [(''a'', JObj [(''b'', JNum 1)])])"
  "flattenAndAddToForm [] (JObj [(''c'', JArr [JArr [JNum 1]])])
     = flattenAndAddToForm [] (JObj [(''c'', JArr [JObj [(''0'', JNum 1)]])])"
  "flattenAndAddToForm [] (JObj [(''c'', JArr [JNull])]) = flattenAndAddToForm [] (JObj [(''c'', JArr [])])"
  by code_simp+

text \<open>
  An object with an own property named \<open>hasOwnProperty\<close>, at any depth, makes the
  flattening throw.
\<close>

lemma flatten_shadowed_hasOwnProperty:
  "flattenAndAddToForm [] (JObj [(''hasOwnProperty'', JNum 1)])
     = Inl (JsError ''TypeError: obj.hasOwnProperty is not a function'')"
  "flattenAndAddToForm [] (JObj [(''a'', JNum 1), (''b'', JArr [JObj [(''hasOwnProperty'', JNull)]])])
     = Inl (JsError ''TypeError: obj.hasOwnProperty is not a function'')"
  "\<not> plainObject (JObj [(''hasOwnProperty'', JNum 1)])"
  by (simp_all add: plainObject_def plainKey_def) code_simp+

end
